theory Spec2Isabelle
  imports Main "HOL-Library.Sublist"
begin

section \<open>Go strings and the standard-library functions the agent calls\<close>

text \<open>
  A Go string is a sequence of bytes, so it is a \<^typ>\<open>string\<close> here (a list of 8-bit
  characters) and \<open>len\<close> is \<^const>\<open>length\<close>.

  \<open>strings.TrimSpace\<close> removes the white-space runes (\<open>unicode.IsSpace\<close>) at both ends.
  A rune is white space when it is one of the six ASCII bytes of \<open>asciiSpace\<close> or one of
  U+0085, U+00A0, U+1680, U+2000..U+200A, U+2028, U+2029, U+202F, U+205F, U+3000. Go decodes
  only the shortest UTF-8 form of a rune, and an ASCII byte is never part of a longer
  sequence, so the string starts (ends) with a white-space rune exactly when one of the byte
  sequences of \<open>spaceRunes\<close> is a prefix (suffix) of it.
\<close>

definition asciiSpace :: "char list" where
  "asciiSpace = [CHR 0x09, CHR 0x0A, CHR 0x0B, CHR 0x0C, CHR 0x0D, CHR 0x20]"

definition unicodeSpace :: "string list" where
  "unicodeSpace =
     [[CHR 0xC2, CHR 0x85], [CHR 0xC2, CHR 0xA0], [CHR 0xE1, CHR 0x9A, CHR 0x80],
      [CHR 0xE2, CHR 0x80, CHR 0x80], [CHR 0xE2, CHR 0x80, CHR 0x81],
      [CHR 0xE2, CHR 0x80, CHR 0x82], [CHR 0xE2, CHR 0x80, CHR 0x83],
      [CHR 0xE2, CHR 0x80, CHR 0x84], [CHR 0xE2, CHR 0x80, CHR 0x85],
      [CHR 0xE2, CHR 0x80, CHR 0x86], [CHR 0xE2, CHR 0x80, CHR 0x87],
      [CHR 0xE2, CHR 0x80, CHR 0x88], [CHR 0xE2, CHR 0x80, CHR 0x89],
      [CHR 0xE2, CHR 0x80, CHR 0x8A], [CHR 0xE2, CHR 0x80, CHR 0xA8],
      [CHR 0xE2, CHR 0x80, CHR 0xA9], [CHR 0xE2, CHR 0x80, CHR 0xAF],
      [CHR 0xE2, CHR 0x81, CHR 0x9F], [CHR 0xE3, CHR 0x80, CHR 0x80]]"

definition spaceRunes :: "string list" where
  "spaceRunes = map (\<lambda>c. [c]) asciiSpace @ unicodeSpace"

text \<open>The width in bytes of the white-space rune the string starts (ends) with, 0 when
  it starts (ends) with none.\<close>

definition leadingSpace :: "string \<Rightarrow> nat" where
  "leadingSpace s = (case filter (\<lambda>t. prefix t s) spaceRunes of [] \<Rightarrow> 0 | t # _ \<Rightarrow> length t)"

definition trailingSpace :: "string \<Rightarrow> nat" where
  "trailingSpace s = (case filter (\<lambda>t. suffix t s) spaceRunes of [] \<Rightarrow> 0 | t # _ \<Rightarrow> length t)"

lemma leadingSpace_le: "leadingSpace s \<le> length s"
proof (cases "filter (\<lambda>t. prefix t s) spaceRunes")
  case Nil
  then show ?thesis by (simp add: leadingSpace_def)
next
  case (Cons t ts)
  then have "t \<in> set (filter (\<lambda>t. prefix t s) spaceRunes)" by simp
  then have "prefix t s" by simp
  then have "length t \<le> length s" by (rule prefix_length_le)
  with Cons show ?thesis by (simp add: leadingSpace_def)
qed

lemma trailingSpace_le: "trailingSpace s \<le> length s"
proof (cases "filter (\<lambda>t. suffix t s) spaceRunes")
  case Nil
  then show ?thesis by (simp add: trailingSpace_def)
next
  case (Cons t ts)
  then have "t \<in> set (filter (\<lambda>t. suffix t s) spaceRunes)" by simp
  then have "suffix t s" by simp
  then have "length t \<le> length s" by (rule suffix_length_le)
  with Cons show ?thesis by (simp add: trailingSpace_def)
qed

function TrimLeft :: "string \<Rightarrow> string" where
  "TrimLeft s = (if leadingSpace s = 0 then s else TrimLeft (drop (leadingSpace s) s))"
  by pat_completeness auto
termination
proof (relation "measure length")
  show "wf (measure length)" by simp
next
  fix s :: string
  assume "leadingSpace s \<noteq> 0"
  moreover have "leadingSpace s \<le> length s" by (rule leadingSpace_le)
  ultimately show "(drop (leadingSpace s) s, s) \<in> measure length" by simp
qed

function TrimRight :: "string \<Rightarrow> string" where
  "TrimRight s =
     (if trailingSpace s = 0 then s else TrimRight (take (length s - trailingSpace s) s))"
  by pat_completeness auto
termination
proof (relation "measure length")
  show "wf (measure length)" by simp
next
  fix s :: string
  assume "trailingSpace s \<noteq> 0"
  moreover have "trailingSpace s \<le> length s" by (rule trailingSpace_le)
  ultimately show "(take (length s - trailingSpace s) s, s) \<in> measure length" by simp
qed

declare TrimLeft.simps [simp del] TrimRight.simps [simp del]

definition TrimSpace :: "string \<Rightarrow> string" where
  "TrimSpace s = TrimRight (TrimLeft s)"

text \<open>Both loops unfold one step at a time.\<close>

lemma TrimLeft_stop: "leadingSpace s = 0 \<Longrightarrow> TrimLeft s = s"
  by (subst TrimLeft.simps) simp

lemma TrimRight_stop: "trailingSpace s = 0 \<Longrightarrow> TrimRight s = s"
  by (subst TrimRight.simps) simp

lemma TrimRight_step:
  "trailingSpace s \<noteq> 0 \<Longrightarrow> TrimRight s = TrimRight (take (length s - trailingSpace s) s)"
  by (subst TrimRight.simps) simp

text \<open>The bytes that occur in the encoding of some white-space rune.\<close>

definition spaceByte :: "char \<Rightarrow> bool" where
  "spaceByte c \<longleftrightarrow> c \<in> set (concat spaceRunes)"

lemma spaceRunes_nonempty: "t \<in> set spaceRunes \<Longrightarrow> t \<noteq> []"
  by (auto simp: spaceRunes_def asciiSpace_def unicodeSpace_def)

lemma leadingSpace_hard:
  assumes "\<not> spaceByte c"
  shows "leadingSpace (c # s) = 0"
proof -
  have "\<not> prefix t (c # s)" if "t \<in> set spaceRunes" for t
  proof
    assume p: "prefix t (c # s)"
    from that have "t \<noteq> []" by (rule spaceRunes_nonempty)
    then obtain a u where t: "t = a # u" by (cases t) auto
    with p have "a = c" by simp
    with t have "c \<in> set t" by simp
    with that have "spaceByte c" unfolding spaceByte_def set_concat by blast
    with assms show False by simp
  qed
  then have "filter (\<lambda>t. prefix t (c # s)) spaceRunes = []"
    by (simp add: filter_empty_conv)
  then show ?thesis by (simp add: leadingSpace_def)
qed

lemma trailingSpace_witness:
  assumes "trailingSpace s \<noteq> 0"
  shows "\<exists>t \<in> set spaceRunes. suffix t s \<and> length t = trailingSpace s"
proof (cases "filter (\<lambda>t. suffix t s) spaceRunes")
  case Nil
  with assms show ?thesis by (simp add: trailingSpace_def)
next
  case (Cons t ts)
  then have "t \<in> set (filter (\<lambda>t. suffix t s) spaceRunes)" by simp
  then have "t \<in> set spaceRunes" "suffix t s" by simp_all
  moreover from Cons have "trailingSpace s = length t" by (simp add: trailingSpace_def)
  ultimately show ?thesis by auto
qed

lemma suffix_past_hard:
  assumes "suffix t (xs @ ys)" and "xs \<noteq> []" and "last xs \<notin> set t"
  shows "length t \<le> length ys"
proof (rule ccontr)
  assume "\<not> length t \<le> length ys"
  then have long: "length ys < length t" by simp
  from assms(1) have "suffix t ys \<or> (\<exists>t'. suffix t' xs \<and> t = t' @ ys)"
    by (auto simp: suffix_append)
  then show False
  proof
    assume "suffix t ys"
    then have "length t \<le> length ys" by (rule suffix_length_le)
    with long show False by simp
  next
    assume "\<exists>t'. suffix t' xs \<and> t = t' @ ys"
    then obtain t' where s: "suffix t' xs" and t: "t = t' @ ys" by blast
    from long t have "t' \<noteq> []" by auto
    with s have "last t' = last xs" by (auto simp: suffix_def)
    moreover from \<open>t' \<noteq> []\<close> t have "last t' \<in> set t" by simp
    ultimately show False using assms(3) by simp
  qed
qed

lemma TrimRight_keeps:
  assumes "xs \<noteq> []" and "\<not> spaceByte (last xs)"
  shows "\<exists>ys'. TrimRight (xs @ ys) = xs @ ys' \<and> prefix ys' ys"
proof (induction "length ys" arbitrary: ys rule: less_induct)
  case less
  show ?case
  proof (cases "trailingSpace (xs @ ys) = 0")
    case True
    then have "TrimRight (xs @ ys) = xs @ ys" by (rule TrimRight_stop)
    then show ?thesis by auto
  next
    case False
    then obtain t where t: "t \<in> set spaceRunes" "suffix t (xs @ ys)"
      "length t = trailingSpace (xs @ ys)"
      using trailingSpace_witness by blast
    from t(1) assms(2) have "last xs \<notin> set t" by (auto simp: spaceByte_def)
    with t(2) assms(1) have le: "length t \<le> length ys" by (rule suffix_past_hard)
    from t(1) have "t \<noteq> []" by (rule spaceRunes_nonempty)
    then have "0 < length t" by simp
    with le have "length ys - length t < length ys" by arith
    then have shorter: "length (take (length ys - length t) ys) < length ys" by simp
    from le have "take (length (xs @ ys) - trailingSpace (xs @ ys)) (xs @ ys)
        = xs @ take (length ys - length t) ys"
      by (simp add: t(3) [symmetric])
    with False have "TrimRight (xs @ ys) = TrimRight (xs @ take (length ys - length t) ys)"
      by (simp add: TrimRight_step)
    moreover from less [OF shorter] obtain ys' where
      "TrimRight (xs @ take (length ys - length t) ys) = xs @ ys'"
      "prefix ys' (take (length ys - length t) ys)" by blast
    moreover have "prefix (take (length ys - length t) ys) ys" by (rule take_is_prefix)
    ultimately show ?thesis by (metis prefix_order.order_trans)
  qed
qed

text \<open>A string that starts and ends with a byte of no white-space rune loses nothing
  to \<open>TrimSpace\<close>, whatever follows it: only bytes after it are removed.\<close>

lemma TrimSpace_keeps:
  assumes "xs \<noteq> []" and "\<not> spaceByte (hd xs)" and "\<not> spaceByte (last xs)"
  shows "\<exists>ys'. TrimSpace (xs @ ys) = xs @ ys' \<and> prefix ys' ys"
proof -
  from assms(1) obtain c cs where xs: "xs = c # cs" by (cases xs) auto
  with assms(2) have "leadingSpace (xs @ ys) = 0" by (simp add: leadingSpace_hard)
  then have "TrimLeft (xs @ ys) = xs @ ys" by (rule TrimLeft_stop)
  with TrimRight_keeps [OF assms(1) assms(3)] show ?thesis by (simp add: TrimSpace_def)
qed

text \<open>\<open>strings.SplitN(s, "\n", 2)\<close>: the string itself when it has no line feed, else the
  text before the first line feed and the text after it.\<close>

definition SplitN2 :: "string \<Rightarrow> string list" where
  "SplitN2 s =
     (if CHR 0x0A \<in> set s
      then [takeWhile (\<lambda>c. c \<noteq> CHR 0x0A) s, tl (dropWhile (\<lambda>c. c \<noteq> CHR 0x0A) s)]
      else [s])"

text \<open>The verb \<open>%d\<close> of \<open>fmt\<close> on an \<open>int\<close>: decimal digits, a minus sign when negative.\<close>

function digits :: "nat \<Rightarrow> string" where
  "digits n = (if n < 10 then [''0123456789'' ! n] else digits (n div 10) @ [''0123456789'' ! (n mod 10)])"
  by pat_completeness auto
termination
  by (relation "measure id") auto

declare digits.simps [simp del]

definition itoa :: "int \<Rightarrow> string" where
  "itoa i = (if i < 0 then ''-'' @ digits (nat (- i)) else digits (nat i))"

section \<open>Data model\<close>

text \<open>\<open>environments.Action\<close> and \<open>environments.Output\<close> (the agent package declares the same
  two structs).\<close>

record Action =
  Type :: string
  Command :: string

record Output =
  Stdout :: string
  Stderr :: string
  ExitCode :: int
  TimedOut :: bool

definition ActionTypeBash :: string where
  "ActionTypeBash = ''bash''"

text \<open>The zero values \<open>Action{}\<close> and \<open>Output{}\<close>.\<close>

definition Action_zero :: Action where
  "Action_zero = \<lparr>Type = '''', Command = ''''\<rparr>"

definition Output_zero :: Output where
  "Output_zero = \<lparr>Stdout = '''', Stderr = '''', ExitCode = 0, TimedOut = False\<rparr>"

section \<open>Observations (agent.go)\<close>

definition completionMarker :: string where
  "completionMarker = ''TASK_COMPLETE''"

definition isTaskComplete :: "Output \<Rightarrow> bool" where
  "isTaskComplete output =
     (let firstLine = hd (SplitN2 (TrimSpace (Stdout output)))
      in TrimSpace firstLine = completionMarker)"

definition extractFinalOutput :: "Output \<Rightarrow> string" where
  "extractFinalOutput output =
     (let parts = SplitN2 (Stdout output)
      in if length parts > 1 then TrimSpace (parts ! 1) else '''')"

definition maxLen :: nat where
  "maxLen = 10000"

definition truncationNotice :: string where
  "truncationNotice = [CHR 0x0A, CHR 0x0A] @ ''[... output truncated ...]'' @ [CHR 0x0A, CHR 0x0A]"

definition truncateOutput :: "string \<Rightarrow> string" where
  "truncateOutput result =
     (if length result > maxLen
      then take (maxLen div 2) result @ truncationNotice
           @ drop (length result - maxLen div 2) result
      else result)"

definition exitCodePrefix :: "int \<Rightarrow> string" where
  "exitCodePrefix code = ''[exit code: '' @ itoa code @ '']'' @ [CHR 0x0A]"

definition formatObservation :: "Output \<Rightarrow> string" where
  "formatObservation output =
     (if TrimSpace (Stdout output) = '''' \<and> ExitCode output = 0 then ''(no output)''
      else let result = truncateOutput (Stdout output)
           in if ExitCode output \<noteq> 0 then exitCodePrefix (ExitCode output) @ result
              else result)"

section \<open>Errors (errors.go, environments/local)\<close>

datatype TerminationReason = ReasonComplete | ReasonStepLimit | ReasonCostLimit | ReasonUserAbort

datatype ProcessErrType = ProcessErrFormat | ProcessErrTimeout | ProcessErrExecution

datatype ExecutionErrorType = ErrTimeout | ErrExecution | ErrBlocked

text \<open>
  The values of Go's \<open>error\<close> interface that the repository builds: \<open>*TerminatingErr\<close>
  and \<open>*ProcessErr\<close> (declared with the same fields in the root package and in package
  agent, and identified here), \<open>*local.ExecutionError\<close>, an error with a text only
  (\<open>errors.New\<close>, \<open>fmt.Errorf\<close> without \<open>%w\<close>, the errors of a context), and
  \<open>fmt.Errorf(prefix + "%w", e)\<close>, which wraps \<open>e\<close>. \<open>Panic\<close> stands for a run-time panic
  (a method call on a nil interface): it is no error value in Go, it unwinds through the
  callers, which the model renders by handing it on unchanged.
\<close>

datatype err =
    TerminatingErr TerminationReason string
  | ProcessErr ProcessErrType string
  | ExecutionError ExecutionErrorType string
  | ErrorString string
  | Wrapped string err
  | Panic string

text \<open>\<open>errors.As\<close> with a target of each of the three struct types: the first error of
  that type in the chain of wrapped errors.\<close>

fun asTerminatingErr :: "err \<Rightarrow> (TerminationReason \<times> string) option" where
  "asTerminatingErr (TerminatingErr r out) = Some (r, out)"
| "asTerminatingErr (Wrapped p e) = asTerminatingErr e"
| "asTerminatingErr _ = None"

fun asProcessErr :: "err \<Rightarrow> (ProcessErrType \<times> string) option" where
  "asProcessErr (ProcessErr t m) = Some (t, m)"
| "asProcessErr (Wrapped p e) = asProcessErr e"
| "asProcessErr _ = None"

fun asExecutionError :: "err \<Rightarrow> (ExecutionErrorType \<times> string) option" where
  "asExecutionError (ExecutionError t m) = Some (t, m)"
| "asExecutionError (Wrapped p e) = asExecutionError e"
| "asExecutionError _ = None"

section \<open>Action parser (package agent, parser)\<close>

text \<open>
  \<open>commandRegex\<close> is \<open>(?s)```bash\s*\n(.*?)\n```\<close>. Go's \<open>regexp\<close> returns the match a
  backtracking search finds first at the leftmost position where any match starts:
  \<open>\s*\<close> is greedy and gives characters back one at a time, \<open>(.*?)\<close> is lazy and stops
  at the first closing fence. \<open>\s\<close> is the class \<open>[\t\n\f\r ]\<close>. Every byte the pattern
  names is ASCII and \<open>.\<close> takes any rune under \<open>(?s)\<close> (an invalid byte counts as one
  rune), so matching byte by byte finds the same matches.
\<close>

definition isReSpace :: "char \<Rightarrow> bool" where
  "isReSpace c \<longleftrightarrow> c \<in> set [CHR 0x09, CHR 0x0A, CHR 0x0C, CHR 0x0D, CHR 0x20]"

definition fenceOpen :: string where
  "fenceOpen = ''```bash''"

definition fenceClose :: string where
  "fenceClose = CHR 0x0A # ''```''"

text \<open>Each matcher returns the text of group 1 and the input left after the match.
  \<open>matchLazy\<close> is \<open>(.*?)\n```\<close>, \<open>matchSpaces\<close> is \<open>\s*\n(.*?)\n```\<close>, \<open>matchHere\<close> is the
  whole pattern anchored at the start, \<open>findMatch\<close> the leftmost match.\<close>

fun matchLazy :: "string \<Rightarrow> (string \<times> string) option" where
  "matchLazy [] = None"
| "matchLazy (c # cs) =
     (if prefix fenceClose (c # cs) then Some ([], drop (length fenceClose) (c # cs))
      else map_option (\<lambda>(cap, rest). (c # cap, rest)) (matchLazy cs))"

fun matchSpaces :: "string \<Rightarrow> (string \<times> string) option" where
  "matchSpaces [] = None"
| "matchSpaces (c # cs) =
     (if isReSpace c
      then (case matchSpaces cs of
              Some r \<Rightarrow> Some r
            | None \<Rightarrow> if c = CHR 0x0A then matchLazy cs else None)
      else None)"

definition matchHere :: "string \<Rightarrow> (string \<times> string) option" where
  "matchHere s =
     (if prefix fenceOpen s then matchSpaces (drop (length fenceOpen) s) else None)"

fun findMatch :: "string \<Rightarrow> (string \<times> string) option" where
  "findMatch [] = None"
| "findMatch (c # cs) =
     (case matchHere (c # cs) of Some r \<Rightarrow> Some r | None \<Rightarrow> findMatch cs)"

lemma matchLazy_shorter: "matchLazy s = Some (cap, rest) \<Longrightarrow> length rest < length s"
proof (induction s arbitrary: cap)
  case Nil
  then show ?case by simp
next
  case (Cons c cs)
  show ?case
  proof (cases "prefix fenceClose (c # cs)")
    case True
    with Cons.prems show ?thesis by (auto simp: fenceClose_def)
  next
    case False
    with Cons.prems obtain cap' where "matchLazy cs = Some (cap', rest)" by auto
    then have "length rest < length cs" by (rule Cons.IH)
    then show ?thesis by simp
  qed
qed

lemma matchSpaces_shorter: "matchSpaces s = Some (cap, rest) \<Longrightarrow> length rest < length s"
proof (induction s)
  case Nil
  then show ?case by simp
next
  case (Cons c cs)
  show ?case
  proof (cases "matchSpaces cs")
    case None
    with Cons.prems have "matchLazy cs = Some (cap, rest)"
      by (auto split: if_splits)
    then have "length rest < length cs" by (rule matchLazy_shorter)
    then show ?thesis by simp
  next
    case (Some r)
    with Cons.prems have "matchSpaces cs = Some (cap, rest)"
      by (auto split: if_splits)
    then have "length rest < length cs" by (rule Cons.IH)
    then show ?thesis by simp
  qed
qed

lemma matchHere_shorter: "matchHere s = Some (cap, rest) \<Longrightarrow> length rest < length s"
proof -
  assume "matchHere s = Some (cap, rest)"
  then have "matchSpaces (drop (length fenceOpen) s) = Some (cap, rest)"
    by (auto simp: matchHere_def split: if_splits)
  then have "length rest < length (drop (length fenceOpen) s)" by (rule matchSpaces_shorter)
  then show ?thesis by simp
qed

lemma findMatch_shorter: "findMatch s = Some (cap, rest) \<Longrightarrow> length rest < length s"
proof (induction s)
  case Nil
  then show ?case by simp
next
  case (Cons c cs)
  show ?case
  proof (cases "matchHere (c # cs)")
    case None
    with Cons.prems have "findMatch cs = Some (cap, rest)" by simp
    then have "length rest < length cs" by (rule Cons.IH)
    then show ?thesis by simp
  next
    case (Some r)
    with Cons.prems have "matchHere (c # cs) = Some (cap, rest)" by simp
    then show ?thesis by (rule matchHere_shorter)
  qed
qed

text \<open>\<open>commandRegex.FindAllStringSubmatch(response, -1)\<close>, each match given by its group
  1: no match is empty, so the search for the next match starts where the last one
  ended.\<close>

function FindAllStringSubmatch :: "string \<Rightarrow> string list" where
  "FindAllStringSubmatch s =
     (case findMatch s of
        None \<Rightarrow> []
      | Some (cap, rest) \<Rightarrow> cap # FindAllStringSubmatch rest)"
  by pat_completeness auto
termination
proof (relation "measure length")
  show "wf (measure length)" by simp
next
  fix s :: string and x2 cap rest
  assume "findMatch s = Some x2" and "(cap, rest) = x2"
  then have "findMatch s = Some (cap, rest)" by simp
  then have "length rest < length s" by (rule findMatch_shorter)
  then show "(rest, s) \<in> measure length" by simp
qed

declare FindAllStringSubmatch.simps [simp del]

definition noCommandMessage :: string where
  "noCommandMessage = ''No bash command found. If the task is complete, respond with TASK_COMPLETE. Otherwise, provide exactly one command in ```bash``` block.''"

definition manyCommandsMessage :: "nat \<Rightarrow> string" where
  "manyCommandsMessage n = ''Found '' @ itoa (int n) @ '' commands, expected exactly one. Please provide a single command in ```bash``` block.''"

definition emptyCommandMessage :: string where
  "emptyCommandMessage = ''Empty command in bash block. Please provide a valid command.''"

definition ParseAction :: "string \<Rightarrow> err + Action" where
  "ParseAction response =
     (let matches = FindAllStringSubmatch response
      in if length matches = 0 then Inl (ProcessErr ProcessErrFormat noCommandMessage)
         else if length matches > 1
         then Inl (ProcessErr ProcessErrFormat (manyCommandsMessage (length matches)))
         else let command = TrimSpace (matches ! 0)
              in if command = '''' then Inl (ProcessErr ProcessErrFormat emptyCommandMessage)
                 else Inr \<lparr>Type = ActionTypeBash, Command = command\<rparr>)"

section \<open>Command validator and executor (package agent, executor; environments/local)\<close>

text \<open>
  A compiled pattern is known by its source text (\<open>re.String()\<close>) and by the commands it
  matches (\<open>re.MatchString\<close>); the regular-expression engine itself is the standard
  library's. What the launched process does is the operating system's: \<open>cmd.Run()\<close> is a
  parameter that yields, for a working directory, a command and a timeout, the captured
  streams, the error of \<open>Run\<close> if any (an \<open>*exec.ExitError\<close> with its exit code, or
  another error) and whether the deadline of the derived context has passed.
\<close>

record Regexp =
  source :: string
  MatchString :: "string \<Rightarrow> bool"

datatype runErr = ExitError string int | StartError string

fun runErrText :: "runErr \<Rightarrow> string" where
  "runErrText (ExitError m c) = m"
| "runErrText (StartError m) = m"

record procResult =
  procStdout :: string
  procStderr :: string
  procErr :: "runErr option"
  deadlineExceeded :: bool

text \<open>What the executor leaves behind outside its return value: the processes it has
  spawned (working directory and command, oldest first) and the patterns whose
  \<open>MatchString\<close> it has called (oldest first).\<close>

record sys =
  spawned :: "(string \<times> string) list"
  evaluated :: "string list"

type_synonym CommandValidator = "string \<Rightarrow> sys \<Rightarrow> err option \<times> sys"

type_synonym launcher = "nat \<Rightarrow> string \<Rightarrow> string \<Rightarrow> int \<Rightarrow> procResult"

text \<open>\<open>BlocklistValidator.Validate\<close>. The argument \<open>quote\<close> is the verb \<open>%q\<close> of \<open>fmt\<close>
  (\<open>strconv.Quote\<close>).\<close>

definition blockedMessage :: "(string \<Rightarrow> string) \<Rightarrow> Regexp \<Rightarrow> string" where
  "blockedMessage quote re =
     ''Command blocked for safety: matches pattern '' @ quote (source re)
       @ ''. Please use a safer alternative.''"

fun Validate :: "(string \<Rightarrow> string) \<Rightarrow> Regexp list \<Rightarrow> CommandValidator" where
  "Validate quote [] command s = (None, s)"
| "Validate quote (re # patterns) command s =
     (let s' = s\<lparr>evaluated := evaluated s @ [source re]\<rparr>
      in if MatchString re command
         then (Some (ProcessErr ProcessErrExecution (blockedMessage quote re)), s')
         else Validate quote patterns command s')"

record BashExecutor =
  timeout :: int
  workingDir :: string
  validator :: "CommandValidator option"

text \<open>\<open>Output.String()\<close> of package agent and of package environments.\<close>

definition Output_String :: "Output \<Rightarrow> string" where
  "Output_String out =
     Stdout out
       @ (if Stderr out \<noteq> '''' then [CHR 0x0A] @ ''stderr: '' @ Stderr out else '''')
       @ (if ExitCode out \<noteq> 0 then [CHR 0x0A] @ ''exit code: '' @ itoa (ExitCode out) else '''')"

definition env_Output_String :: "Output \<Rightarrow> string" where
  "env_Output_String out =
     (if Stderr out \<noteq> '''' then Stdout out @ [CHR 0x0A] @ Stderr out else Stdout out)"

definition unsupportedMessage :: "Action \<Rightarrow> string" where
  "unsupportedMessage action = ''unsupported action type: '' @ Type action"

definition timeoutMessage :: "string \<Rightarrow> string \<Rightarrow> string" where
  "timeoutMessage duration shown =
     ''Command timed out after '' @ duration @ ''. Partial output:'' @ [CHR 0x0A] @ shown"

definition failedMessage :: "runErr \<Rightarrow> string \<Rightarrow> string" where
  "failedMessage e shown =
     ''Command failed: '' @ runErrText e @ [CHR 0x0A] @ ''Output:'' @ [CHR 0x0A] @ shown"

text \<open>\<open>(*BashExecutor).Execute\<close> of package agent. \<open>duration\<close> is the verb \<open>%s\<close> of \<open>fmt\<close>
  on a \<open>time.Duration\<close>, \<open>run\<close> is \<open>cmd.Run()\<close> on the process the call spawns.\<close>

definition Execute ::
  "(int \<Rightarrow> string) \<Rightarrow> launcher \<Rightarrow> BashExecutor \<Rightarrow> Action \<Rightarrow> sys
     \<Rightarrow> (Output \<times> err option) \<times> sys" where
  "Execute duration run e action s =
     (if Type action \<noteq> ActionTypeBash
      then ((Output_zero, Some (ErrorString (unsupportedMessage action))), s)
      else case (case validator e of None \<Rightarrow> (None, s)
                 | Some v \<Rightarrow> v (Command action) s) of
             (Some er, s1) \<Rightarrow> ((Output_zero, Some er), s1)
           | (None, s1) \<Rightarrow>
               (let r = run (length (spawned s1)) (workingDir e) (Command action) (timeout e);
                    s2 = s1\<lparr>spawned := spawned s1 @ [(workingDir e, Command action)]\<rparr>;
                    output = \<lparr>Stdout = procStdout r, Stderr = procStderr r, ExitCode = 0,
                              TimedOut = False\<rparr>
                in case procErr r of
                     Some re \<Rightarrow>
                       if deadlineExceeded r
                       then (let output = output\<lparr>TimedOut := True\<rparr>
                             in ((output,
                                  Some (ProcessErr ProcessErrTimeout
                                    (timeoutMessage (duration (timeout e)) (Output_String output)))),
                                 s2))
                       else (let output = (case re of
                                             ExitError m c \<Rightarrow> output\<lparr>ExitCode := c\<rparr>
                                           | StartError m \<Rightarrow> output)
                             in ((output,
                                  Some (ProcessErr ProcessErrExecution
                                    (failedMessage re (Output_String output)))),
                                 s2))
                   | None \<Rightarrow> ((output, None), s2)))"

text \<open>\<open>(*environment).Execute\<close> of package local, whose configuration has the same three
  fields; it differs in the type of its errors and in the \<open>String\<close> method of its
  \<open>Output\<close>.\<close>

definition local_Execute ::
  "(int \<Rightarrow> string) \<Rightarrow> launcher \<Rightarrow> BashExecutor \<Rightarrow> Action \<Rightarrow> sys
     \<Rightarrow> (Output \<times> err option) \<times> sys" where
  "local_Execute duration run e action s =
     (if Type action \<noteq> ActionTypeBash
      then ((Output_zero, Some (ErrorString (unsupportedMessage action))), s)
      else case (case validator e of None \<Rightarrow> (None, s)
                 | Some v \<Rightarrow> v (Command action) s) of
             (Some er, s1) \<Rightarrow> ((Output_zero, Some er), s1)
           | (None, s1) \<Rightarrow>
               (let r = run (length (spawned s1)) (workingDir e) (Command action) (timeout e);
                    s2 = s1\<lparr>spawned := spawned s1 @ [(workingDir e, Command action)]\<rparr>;
                    output = \<lparr>Stdout = procStdout r, Stderr = procStderr r, ExitCode = 0,
                              TimedOut = False\<rparr>
                in case procErr r of
                     Some re \<Rightarrow>
                       if deadlineExceeded r
                       then (let output = output\<lparr>TimedOut := True\<rparr>
                             in ((output,
                                  Some (ExecutionError ErrTimeout
                                    (timeoutMessage (duration (timeout e))
                                       (env_Output_String output)))),
                                 s2))
                       else (let output = (case re of
                                             ExitError m c \<Rightarrow> output\<lparr>ExitCode := c\<rparr>
                                           | StartError m \<Rightarrow> output)
                             in ((output,
                                  Some (ExecutionError ErrExecution
                                    (failedMessage re (env_Output_String output)))),
                                 s2))
                   | None \<Rightarrow> ((output, None), s2)))"

section \<open>Step/loop controller (agent.go, config.go, types.go)\<close>

record Message =
  Role :: string
  Content :: string

definition RoleSystem :: string where
  "RoleSystem = ''system''"

definition RoleUser :: string where
  "RoleUser = ''user''"

definition RoleAssistant :: string where
  "RoleAssistant = ''assistant''"

definition joinLines :: "string list \<Rightarrow> string" where
  "joinLines ls = concat (butlast (concat (map (\<lambda>l. [l, [CHR 0x0A]]) ls)))"

definition DefaultSystemPrompt :: string where
  \<open>DefaultSystemPrompt = joinLines
     [''You are an autonomous agent that executes bash commands to complete tasks.'',
      '''',
      ''RULES:'',
      ''1. You can ONLY execute bash commands by wrapping them in a markdown code block with the 'bash' language tag'',
      ''2. Execute ONE command at a time and wait for the output'',
      ''3. Use the command output to inform your next action'',
      ''4. When the task is complete, output "TASK_COMPLETE" followed by a summary on the next line'',
      '''',
      ''Example command format:'',
      ''```bash'',
      ''ls -la'',
      ''```'',
      '''',
      ''Example completion:'',
      ''```bash'',
      ''echo "TASK_COMPLETE"'',
      ''echo "Summary: Created hello.txt with the requested content"'',
      ''```'']\<close>

text \<open>
  The collaborators behind the interfaces. A model, an environment and a custom action
  handler may answer the same request differently each time, and a context may be
  cancelled at any moment, so each takes the number of queries the session has made
  before the current step. A parser is a function of the response. The writer is
  \<open>io.Discard\<close> or a writer of the caller's (\<open>Sink\<close>); the logger only logs.
\<close>

type_synonym Parser = "string \<Rightarrow> err + Action"

type_synonym ActionHandler = "nat \<Rightarrow> Action \<Rightarrow> Output \<times> bool \<times> err option"

type_synonym Model = "nat \<Rightarrow> Message list \<Rightarrow> err + string"

type_synonym Environment = "nat \<Rightarrow> Action \<Rightarrow> Output \<times> err option"

type_synonym Context = "nat \<Rightarrow> err option"

datatype Writer = Discard | Sink

datatype Logger = NopLogger | UserLogger

text \<open>\<open>Config\<close>; \<open>None\<close> is \<open>nil\<close>.\<close>

record Config =
  parser :: "Parser option"
  logger :: "Logger option"
  output_writer :: "Writer option"
  maxSteps :: int
  systemPrompt :: string
  actionHandler :: "ActionHandler option"

definition Config_zero :: Config where
  "Config_zero = \<lparr>parser = None, logger = None, output_writer = None, maxSteps = 0,
     systemPrompt = '''', actionHandler = None\<rparr>"

definition NewConfig :: Config where
  "NewConfig = \<lparr>parser = None, logger = None, output_writer = Some Discard, maxSteps = 25,
     systemPrompt = DefaultSystemPrompt, actionHandler = None\<rparr>"

text \<open>\<open>baseAgent\<close>. The last three fields are not fields of the Go struct: they record what
  the collaborators have received, the histories the model was queried with, the
  actions handed to the environment and the bytes written to the caller's writer.\<close>

record baseAgent =
  model :: Model
  env :: Environment
  cfg :: Config
  messages :: "Message list"
  step :: int
  queried :: "Message list list"
  executed :: "Action list"
  written :: string

text \<open>\<open>New\<close>; its error result is always \<open>nil\<close>. \<open>NewBashParser()\<close> of the root package is
  the parser of package agent.\<close>

definition New :: "Model \<Rightarrow> Environment \<Rightarrow> Config \<Rightarrow> baseAgent" where
  "New m e c =
     (let c = (if maxSteps c = 0 then c\<lparr>maxSteps := 25\<rparr> else c);
          c = (if systemPrompt c = '''' then c\<lparr>systemPrompt := DefaultSystemPrompt\<rparr> else c);
          c = (if output_writer c = None then c\<lparr>output_writer := Some Discard\<rparr> else c);
          c = (if parser c = None then c\<lparr>parser := Some ParseAction\<rparr> else c);
          c = (if logger c = None then c\<lparr>logger := Some NopLogger\<rparr> else c)
      in \<lparr>model = m, env = e, cfg = c, messages = [], step = 0, queried = [],
          executed = [], written = ''''\<rparr>)"

definition addMessage :: "string \<Rightarrow> string \<Rightarrow> baseAgent \<Rightarrow> baseAgent" where
  "addMessage role content a =
     a\<lparr>messages := messages a @ [\<lparr>Role = role, Content = content\<rparr>]\<rparr>"

text \<open>\<open>fmt.Fprintf\<close> and \<open>fmt.Fprintln\<close> on \<open>a.cfg.output\<close>; on a nil writer the call
  panics (\<open>None\<close>).\<close>

definition writeOutput :: "string \<Rightarrow> baseAgent \<Rightarrow> baseAgent option" where
  "writeOutput text a =
     (case output_writer (cfg a) of
        None \<Rightarrow> None
      | Some Discard \<Rightarrow> Some a
      | Some Sink \<Rightarrow> Some (a\<lparr>written := written a @ text\<rparr>))"

definition nilDereference :: err where
  "nilDereference = Panic ''runtime error: invalid memory address or nil pointer dereference''"

definition handleOutput :: "Output \<Rightarrow> baseAgent \<Rightarrow> (string \<times> err option) \<times> baseAgent" where
  "handleOutput out a =
     (case (if \<not> isTaskComplete out \<and> TrimSpace (Stdout out) \<noteq> ''''
            then writeOutput (Stdout out @ [CHR 0x0A]) a else Some a) of
        None \<Rightarrow> (('''', Some nilDereference), a)
      | Some a1 \<Rightarrow>
          if isTaskComplete out
          then ((extractFinalOutput out,
                 Some (TerminatingErr ReasonComplete (extractFinalOutput out))), a1)
          else (('''', None), addMessage RoleUser (formatObservation out) a1))"

text \<open>The default execution at the end of \<open>Step\<close>.\<close>

definition executeInEnv :: "nat \<Rightarrow> Action \<Rightarrow> baseAgent \<Rightarrow> (string \<times> err option) \<times> baseAgent" where
  "executeInEnv k action a =
     (let a1 = a\<lparr>executed := executed a @ [action]\<rparr>
      in case env a k action of
           (out, Some e) \<Rightarrow> (('''', Some e), a1)
         | (out, None) \<Rightarrow> handleOutput out a1)"

definition Step :: "Context \<Rightarrow> baseAgent \<Rightarrow> (string \<times> err option) \<times> baseAgent" where
  "Step ctx a =
     (let k = length (queried a)
      in case ctx k of
           Some e \<Rightarrow> (('''', Some (Wrapped ''context cancelled: '' e)), a)
         | None \<Rightarrow>
             (let a1 = a\<lparr>queried := queried a @ [messages a]\<rparr>
              in case model a k (messages a) of
                   Inl e \<Rightarrow> (('''', Some (Wrapped ''query failed: '' e)), a1)
                 | Inr response \<Rightarrow>
                     (case parser (cfg a) of
                        None \<Rightarrow> (('''', Some nilDereference), a1)
                      | Some p \<Rightarrow>
                          (case p response of
                             Inl e \<Rightarrow> (('''', Some e), a1)
                           | Inr action \<Rightarrow>
                               (case writeOutput (''$ '' @ Command action @ [CHR 0x0A])
                                       (addMessage RoleAssistant response a1) of
                                  None \<Rightarrow>
                                    (('''', Some nilDereference),
                                     addMessage RoleAssistant response a1)
                                | Some a2 \<Rightarrow>
                                    (case actionHandler (cfg a) of
                                       None \<Rightarrow> executeInEnv k action a2
                                     | Some h \<Rightarrow>
                                         (case h k action of
                                            (out, handled, herr) \<Rightarrow>
                                              if handled
                                              then (case herr of
                                                      Some e \<Rightarrow> (('''', Some e), a2)
                                                    | None \<Rightarrow> handleOutput out a2)
                                              else executeInEnv k action a2)))))))"

text \<open>No step changes the step counter, the configuration or the collaborators.\<close>

lemma writeOutput_frame:
  "writeOutput text a = Some a' \<Longrightarrow>
     step a' = step a \<and> cfg a' = cfg a \<and> model a' = model a \<and> env a' = env a
     \<and> messages a' = messages a \<and> queried a' = queried a \<and> executed a' = executed a"
  by (auto simp: writeOutput_def split: option.splits Writer.splits)

lemma handleOutput_frame:
  "handleOutput out a = (r, a') \<Longrightarrow>
     step a' = step a \<and> cfg a' = cfg a \<and> model a' = model a \<and> env a' = env a
     \<and> queried a' = queried a \<and> executed a' = executed a"
  by (auto simp: handleOutput_def addMessage_def split: option.splits if_splits
      dest!: writeOutput_frame)

lemma executeInEnv_frame:
  "executeInEnv k action a = (r, a') \<Longrightarrow>
     step a' = step a \<and> cfg a' = cfg a \<and> model a' = model a \<and> env a' = env a
     \<and> queried a' = queried a"
  by (auto simp: executeInEnv_def Let_def split: prod.splits option.splits
      dest!: handleOutput_frame)

lemma Step_frame:
  "Step ctx a = (r, a') \<Longrightarrow>
     step a' = step a \<and> cfg a' = cfg a \<and> model a' = model a \<and> env a' = env a"
  by (auto simp: Step_def Let_def addMessage_def
      split: option.splits sum.splits prod.splits if_splits
      dest!: writeOutput_frame handleOutput_frame executeInEnv_frame)

text \<open>The \<open>for\<close> loop of \<open>Run\<close>, from the current value of \<open>a.step\<close>.\<close>

function Run_loop :: "Context \<Rightarrow> baseAgent \<Rightarrow> string \<Rightarrow> (string \<times> err option) \<times> baseAgent" where
  "Run_loop ctx a lastResponse =
     (if step a < maxSteps (cfg a)
      then (case Step ctx a of
              ((response, Some e), a') \<Rightarrow>
                (case asTerminatingErr e of
                   Some (reason, out) \<Rightarrow> ((out, None), a')
                 | None \<Rightarrow>
                     (case asProcessErr e of
                        Some (t, m) \<Rightarrow>
                          Run_loop ctx ((addMessage RoleUser m a')\<lparr>step := step a' + 1\<rparr>)
                            lastResponse
                      | None \<Rightarrow>
                          (case asExecutionError e of
                             Some (t, m) \<Rightarrow>
                               Run_loop ctx ((addMessage RoleUser m a')\<lparr>step := step a' + 1\<rparr>)
                                 lastResponse
                           | None \<Rightarrow> (('''', Some e), a'))))
            | ((response, None), a') \<Rightarrow> Run_loop ctx (a'\<lparr>step := step a' + 1\<rparr>) response)
      else ((lastResponse, Some (TerminatingErr ReasonStepLimit '''')), a))"
  by pat_completeness auto
termination
proof (relation "measure (\<lambda>(ctx, a, lastResponse). nat (maxSteps (cfg a) - step a))")
  show "wf (measure (\<lambda>(ctx, a, lastResponse). nat (maxSteps (cfg a) - step a)))" by simp
qed (auto simp: addMessage_def dest!: Step_frame [OF sym])

declare Run_loop.simps [simp del]

definition Run :: "Context \<Rightarrow> string \<Rightarrow> baseAgent \<Rightarrow> (string \<times> err option) \<times> baseAgent" where
  "Run ctx task a =
     (let a = a\<lparr>messages := []\<rparr>;
          a = addMessage RoleSystem (systemPrompt (cfg a)) a;
          a = addMessage RoleUser task a
      in Run_loop ctx (a\<lparr>step := 0\<rparr>) '''')"

section \<open>Notions used in the statements\<close>

text \<open>The feedback text of a recoverable error, as \<open>Run\<close> finds it: the message of the
  \<open>*ProcessErr\<close> in the chain, else the message of the \<open>*local.ExecutionError\<close> in it.\<close>

definition recoverMessage :: "err \<Rightarrow> string option" where
  "recoverMessage e =
     (case asProcessErr e of
        Some (t, m) \<Rightarrow> Some m
      | None \<Rightarrow> (case asExecutionError e of Some (t, m) \<Rightarrow> Some m | None \<Rightarrow> None))"

text \<open>No custom action handler takes the action: none is configured, or the configured
  one answers that it has not handled it.\<close>

definition notHandled :: "baseAgent \<Rightarrow> Action \<Rightarrow> bool" where
  "notHandled a action =
     (case actionHandler (cfg a) of
        None \<Rightarrow> True
      | Some h \<Rightarrow> \<not> fst (snd (h (length (queried a)) action)))"

text \<open>The agent as \<open>Step\<close> has left it when it reaches the environment: the query is
  recorded, the response appended as an assistant message, the command echoed, the
  action recorded.\<close>

definition beforeExecute :: "string \<Rightarrow> Action \<Rightarrow> baseAgent \<Rightarrow> baseAgent" where
  "beforeExecute response action a =
     a\<lparr>queried := queried a @ [messages a],
       messages := messages a @ [\<lparr>Role = RoleAssistant, Content = response\<rparr>],
       written := (if output_writer (cfg a) = Some Sink
                   then written a @ ''$ '' @ Command action @ [CHR 0x0A] else written a),
       executed := executed a @ [action]\<rparr>"

text \<open>A step of the agent reaches the environment with this response and action: the
  context is live, the model answers, the parser accepts, the writer is not nil and no
  custom handler takes the action.\<close>

definition reachesEnv :: "Context \<Rightarrow> baseAgent \<Rightarrow> string \<Rightarrow> Action \<Rightarrow> bool" where
  "reachesEnv ctx a response action \<longleftrightarrow>
     ctx (length (queried a)) = None
     \<and> model a (length (queried a)) (messages a) = Inr response
     \<and> (\<exists>p. parser (cfg a) = Some p \<and> p response = Inr action)
     \<and> output_writer (cfg a) \<noteq> None \<and> notHandled a action"

text \<open>The \<open>Output\<close> in the timeout branch of \<open>Execute\<close>, and the agent after a step that
  ended in a recoverable error raised by the environment has been turned into
  feedback.\<close>

definition partialOutput :: "procResult \<Rightarrow> Output" where
  "partialOutput r =
     \<lparr>Stdout = procStdout r, Stderr = procStderr r, ExitCode = 0, TimedOut = True\<rparr>"

definition afterFeedback :: "string \<Rightarrow> Action \<Rightarrow> string \<Rightarrow> baseAgent \<Rightarrow> baseAgent" where
  "afterFeedback response action m a =
     (beforeExecute response action a)
       \<lparr>messages := messages a @ [\<lparr>Role = RoleAssistant, Content = response\<rparr>,
                                   \<lparr>Role = RoleUser, Content = m\<rparr>],
        step := step a + 1\<rparr>"

text \<open>A step from the agent ends neither in a terminating signal nor in an error that
  \<open>Run\<close> returns: it succeeds or its error is a recoverable one. A session never stops
  early when its context is never cancelled and this holds of every agent with the
  session's collaborators and configuration.\<close>

definition continues :: "Context \<Rightarrow> baseAgent \<Rightarrow> bool" where
  "continues ctx b =
     (case snd (fst (Step ctx b)) of
        None \<Rightarrow> True
      | Some e \<Rightarrow> asTerminatingErr e = None \<and> recoverMessage e \<noteq> None)"

definition sameSession :: "baseAgent \<Rightarrow> baseAgent \<Rightarrow> bool" where
  "sameSession a b \<longleftrightarrow> model b = model a \<and> env b = env a \<and> cfg b = cfg a"

definition neverStops :: "Context \<Rightarrow> baseAgent \<Rightarrow> bool" where
  "neverStops ctx a \<longleftrightarrow>
     (\<forall>k. ctx k = None) \<and> (\<forall>b. sameSession a b \<longrightarrow> continues ctx b)"

text \<open>
  The language of \<open>commandRegex\<close>, stated without a search order: \<open>isFence t c rest\<close> says
  that \<open>t\<close> starts with a match of the pattern whose group 1 is \<open>c\<close> and that \<open>rest\<close> follows
  the match; \<open>containsFence r\<close> says that the pattern matches somewhere in \<open>r\<close>.
\<close>

definition isFence :: "string \<Rightarrow> string \<Rightarrow> string \<Rightarrow> bool" where
  "isFence t c rest \<longleftrightarrow>
     (\<exists>ws. t = fenceOpen @ ws @ [CHR 0x0A] @ c @ fenceClose @ rest \<and> (\<forall>x \<in> set ws. isReSpace x))"

definition containsFence :: "string \<Rightarrow> bool" where
  "containsFence r \<longleftrightarrow> (\<exists>pre t c rest. r = pre @ t \<and> isFence t c rest)"

section \<open>Example collaborators\<close>

definition neverCancelled :: Context where
  "neverCancelled k = None"

definition talkModel :: Model where
  "talkModel k history = Inr ''I am done.''"

definition idleEnv :: Environment where
  "idleEnv k action = (Output_zero, None)"

definition talkAgent :: baseAgent where
  "talkAgent = New talkModel idleEnv Config_zero"

definition demoPatterns :: "Regexp list" where
  "demoPatterns =
     [\<lparr>source = ''mkfs'', MatchString = (\<lambda>c. c = ''mkfs /dev/sda'')\<rparr>,
      \<lparr>source = ''reboot'', MatchString = (\<lambda>c. c = ''reboot'' \<or> c = ''sudo reboot'')\<rparr>,
      \<lparr>source = ''re.*'', MatchString = (\<lambda>c. prefix ''re'' c)\<rparr>,
      \<lparr>source = ''halt'', MatchString = (\<lambda>c. c = ''halt'')\<rparr>]"

definition demoRun :: launcher where
  "demoRun k dir command tmo =
     \<lparr>procStdout = ''partial'', procStderr = ''slow'',
      procErr = Some (ExitError ''signal: killed'' (- 1)), deadlineExceeded = True\<rparr>"

text \<open>A response whose command is an \<open>echo\<close> of the marker, a line feed and a summary,
  and an environment that answers this command with what the \<open>echo\<close> prints: the marker
  line and the summary line.\<close>

definition echoCommand :: string where
  \<open>echoCommand = ''echo "TASK_COMPLETE'' @ [CHR 0x0A] @ ''Summary: X"''\<close>

definition echoResponse :: string where
  "echoResponse =
     ''Finishing.'' @ [CHR 0x0A] @ ''```bash'' @ [CHR 0x0A] @ echoCommand @ [CHR 0x0A] @ ''```''"

definition echoModel :: Model where
  "echoModel k history = Inr echoResponse"

definition summaryOutput :: Output where
  "summaryOutput =
     \<lparr>Stdout = ''TASK_COMPLETE'' @ [CHR 0x0A] @ ''Summary: X'' @ [CHR 0x0A], Stderr = '''',
      ExitCode = 0, TimedOut = False\<rparr>"

definition echoEnv :: Environment where
  "echoEnv k action =
     (if Command action = echoCommand then (summaryOutput, None) else (Output_zero, None))"

definition echoAgent :: baseAgent where
  "echoAgent =
     (New echoModel echoEnv Config_zero)
       \<lparr>messages := [\<lparr>Role = RoleSystem, Content = DefaultSystemPrompt\<rparr>,
                     \<lparr>Role = RoleUser, Content = ''finish''\<rparr>]\<rparr>"

definition sleepResponse :: string where
  "sleepResponse = ''```bash'' @ [CHR 0x0A] @ ''sleep 60'' @ [CHR 0x0A] @ ''```''"

definition sleepModel :: Model where
  "sleepModel k history = Inr sleepResponse"

definition plainExecutor :: BashExecutor where
  "plainExecutor = \<lparr>timeout = 30000000000, workingDir = '''', validator = None\<rparr>"

definition timedEnv :: Environment where
  "timedEnv k action =
     fst (Execute (\<lambda>t. ''30s'') demoRun plainExecutor action \<lparr>spawned = [], evaluated = []\<rparr>)"

definition sleepAgent :: baseAgent where
  "sleepAgent = New sleepModel timedEnv Config_zero"

section \<open>Facts about trimming used below\<close>

lemma leadingSpace_Nil: "leadingSpace [] = 0"
  by (simp add: leadingSpace_def spaceRunes_def asciiSpace_def unicodeSpace_def)

lemma trailingSpace_Nil: "trailingSpace [] = 0"
  by (simp add: trailingSpace_def spaceRunes_def asciiSpace_def unicodeSpace_def)

lemma TrimSpace_Nil: "TrimSpace [] = []"
  by (simp add: TrimSpace_def TrimLeft_stop TrimRight_stop leadingSpace_Nil trailingSpace_Nil)

lemma TrimLeft_blank: "TrimLeft (CHR 0x20 # s) = TrimLeft s"
proof -
  have "leadingSpace (CHR 0x20 # s) = 1"
    by (simp add: leadingSpace_def spaceRunes_def asciiSpace_def unicodeSpace_def)
  then show ?thesis by (subst TrimLeft.simps) simp
qed

lemma TrimSpace_blanks: "TrimSpace (replicate n (CHR 0x20)) = []"
proof -
  have "TrimLeft (replicate n (CHR 0x20)) = []"
    by (induction n) (simp_all add: TrimLeft_stop leadingSpace_Nil TrimLeft_blank)
  then show ?thesis by (simp add: TrimSpace_def TrimRight_stop trailingSpace_Nil)
qed

lemma TrimSpace_nonblank:
  assumes "xs \<noteq> []" and "\<not> spaceByte (hd xs)" and "\<not> spaceByte (last xs)"
  shows "TrimSpace xs = xs"
proof -
  from TrimSpace_keeps [OF assms, of "[]"] show ?thesis by simp
qed

lemma letter_no_spaceByte:
  "c \<in> set ''ABCDEFGHIJKLMNOPQRSTUVWXYZabcdefghijklmnopqrstuvwxyz_:.-'' \<Longrightarrow> \<not> spaceByte c"
  by (auto simp: spaceByte_def spaceRunes_def asciiSpace_def unicodeSpace_def)

section \<open>The formatted observation\<close>

lemma formatObservation_unfold:
  "formatObservation out =
     (if TrimSpace (Stdout out) = '''' \<and> ExitCode out = 0 then ''(no output)''
      else (if ExitCode out \<noteq> 0 then exitCodePrefix (ExitCode out) else '''')
           @ truncateOutput (Stdout out))"
  by (simp add: formatObservation_def Let_def)

text \<open>
  C8, as the code has it. The check for a blank stdout with exit code 0 comes first in
  \<open>formatObservation\<close>, so the sentinel also replaces a blank stdout that is longer than
  the budget of 10000 bytes. For every other output: a stdout longer than the budget is
  replaced by its first 5000 bytes, the truncation notice and its last 5000 bytes, and a
  nonzero exit code is put in front as \<open>[exit code: N]\<close> and a line feed. The observation
  is a function of the stdout and the exit code alone, so formatting the same stdout
  again gives the same text.
\<close>

theorem formatObservation_cases:
  "(TrimSpace (Stdout out) = '''' \<and> ExitCode out = 0 \<longrightarrow>
      formatObservation out = ''(no output)'')
   \<and> (\<not> (TrimSpace (Stdout out) = '''' \<and> ExitCode out = 0) \<and> maxLen < length (Stdout out) \<longrightarrow>
        formatObservation out =
          (if ExitCode out \<noteq> 0 then exitCodePrefix (ExitCode out) else '''')
          @ take 5000 (Stdout out) @ truncationNotice
          @ drop (length (Stdout out) - 5000) (Stdout out))
   \<and> (ExitCode out \<noteq> 0 \<longrightarrow>
        formatObservation out =
          ''[exit code: '' @ itoa (ExitCode out) @ '']'' @ [CHR 0x0A]
          @ truncateOutput (Stdout out))
   \<and> (Stdout out' = Stdout out \<and> ExitCode out' = ExitCode out \<longrightarrow>
        formatObservation out' = formatObservation out)"
proof (intro conjI impI)
  assume "TrimSpace (Stdout out) = '''' \<and> ExitCode out = 0"
  then show "formatObservation out = ''(no output)''"
    by (simp add: formatObservation_unfold)
next
  assume "\<not> (TrimSpace (Stdout out) = '''' \<and> ExitCode out = 0) \<and> maxLen < length (Stdout out)"
  then show "formatObservation out =
      (if ExitCode out \<noteq> 0 then exitCodePrefix (ExitCode out) else '''')
      @ take 5000 (Stdout out) @ truncationNotice
      @ drop (length (Stdout out) - 5000) (Stdout out)"
    by (auto simp: formatObservation_unfold truncateOutput_def maxLen_def)
next
  assume "ExitCode out \<noteq> 0"
  then show "formatObservation out =
      ''[exit code: '' @ itoa (ExitCode out) @ '']'' @ [CHR 0x0A] @ truncateOutput (Stdout out)"
    by (simp add: formatObservation_unfold exitCodePrefix_def)
next
  assume "Stdout out' = Stdout out \<and> ExitCode out' = ExitCode out"
  then show "formatObservation out' = formatObservation out"
    by (simp add: formatObservation_unfold)
qed

theorem formatObservation_cases_witness:
  "formatObservation \<lparr>Stdout = '' '', Stderr = ''warn'', ExitCode = 0, TimedOut = False\<rparr>
     = ''(no output)''
   \<and> formatObservation
        \<lparr>Stdout = replicate 10001 (CHR ''a''), Stderr = '''', ExitCode = 0, TimedOut = False\<rparr>
     = replicate 5000 (CHR ''a'') @ truncationNotice @ replicate 5000 (CHR ''a'')
   \<and> formatObservation \<lparr>Stdout = ''boom'', Stderr = '''', ExitCode = 2, TimedOut = False\<rparr>
     = ''[exit code: 2]'' @ [CHR 0x0A] @ ''boom''
   \<and> formatObservation \<lparr>Stdout = ''boom'', Stderr = ''x'', ExitCode = 2, TimedOut = True\<rparr>
     = formatObservation \<lparr>Stdout = ''boom'', Stderr = '''', ExitCode = 2, TimedOut = False\<rparr>"
proof -
  let ?blank = "\<lparr>Stdout = '' '', Stderr = ''warn'', ExitCode = 0, TimedOut = False\<rparr>"
  let ?long = "\<lparr>Stdout = replicate 10001 (CHR ''a''), Stderr = '''', ExitCode = 0,
    TimedOut = False\<rparr>"
  let ?boom = "\<lparr>Stdout = ''boom'', Stderr = '''', ExitCode = 2, TimedOut = False\<rparr>"
  let ?boom' = "\<lparr>Stdout = ''boom'', Stderr = ''x'', ExitCode = 2, TimedOut = True\<rparr>"
  have "TrimSpace '' '' = ''''"
    using TrimSpace_blanks [of 1] by simp
  with formatObservation_cases [of ?blank ?blank]
  have 1: "formatObservation ?blank = ''(no output)''" by simp
  have "TrimSpace (replicate 10001 (CHR ''a'')) = replicate 10001 (CHR ''a'')"
    by (rule TrimSpace_nonblank) (simp_all add: letter_no_spaceByte last_replicate)
  then have "TrimSpace (replicate 10001 (CHR ''a'')) \<noteq> ''''" by simp
  with formatObservation_cases [of ?long ?long]
  have 2: "formatObservation ?long
      = replicate 5000 (CHR ''a'') @ truncationNotice @ replicate 5000 (CHR ''a'')"
    by (simp add: maxLen_def)
  have "truncateOutput ''boom'' = ''boom''" by (simp add: truncateOutput_def maxLen_def)
  moreover have "itoa 2 = ''2''" by (simp add: itoa_def digits.simps)
  ultimately have 3: "formatObservation ?boom = ''[exit code: 2]'' @ [CHR 0x0A] @ ''boom''"
    using formatObservation_cases [of ?boom ?boom] by simp
  from formatObservation_cases [of ?boom ?boom']
  have 4: "formatObservation ?boom' = formatObservation ?boom" by simp
  from 1 2 3 4 show ?thesis by simp
qed

text \<open>The claim as stated fails on a stdout of 10001 blanks with exit code 0: it is
  longer than the budget, and the observation is the sentinel, with no part of the
  stdout and no truncation notice.\<close>

theorem formatObservation_blank_oversized:
  "maxLen < length (Stdout \<lparr>Stdout = replicate 10001 (CHR 0x20), Stderr = '''', ExitCode = 0,
       TimedOut = False\<rparr>)
   \<and> formatObservation
        \<lparr>Stdout = replicate 10001 (CHR 0x20), Stderr = '''', ExitCode = 0, TimedOut = False\<rparr>
     = ''(no output)''
   \<and> formatObservation
        \<lparr>Stdout = replicate 10001 (CHR 0x20), Stderr = '''', ExitCode = 0, TimedOut = False\<rparr>
     \<noteq> take 5000 (replicate 10001 (CHR 0x20)) @ truncationNotice
        @ drop (10001 - 5000) (replicate 10001 (CHR 0x20))"
proof -
  let ?big = "\<lparr>Stdout = replicate 10001 (CHR 0x20), Stderr = '''', ExitCode = 0,
    TimedOut = False\<rparr>"
  have sentinel: "formatObservation ?big = ''(no output)''"
    by (simp add: formatObservation_unfold TrimSpace_blanks)
  have short: "length (formatObservation ?big) = 11" by (simp add: sentinel)
  have long: "length (take 5000 (replicate 10001 (CHR 0x20)) @ truncationNotice
        @ drop (10001 - 5000) (replicate 10001 (CHR 0x20))) = 10030"
    by (simp add: truncationNotice_def)
  have "formatObservation ?big \<noteq> take 5000 (replicate 10001 (CHR 0x20))
        @ truncationNotice @ drop (10001 - 5000) (replicate 10001 (CHR 0x20))"
  proof
    assume "formatObservation ?big = take 5000 (replicate 10001 (CHR 0x20))
        @ truncationNotice @ drop (10001 - 5000) (replicate 10001 (CHR 0x20))"
    then have "length (formatObservation ?big) = length (take 5000 (replicate 10001 (CHR 0x20))
        @ truncationNotice @ drop (10001 - 5000) (replicate 10001 (CHR 0x20)))"
      by (rule arg_cong)
    with short long show False by simp
  qed
  with sentinel show ?thesis by (simp add: maxLen_def)
qed

section \<open>The executor\<close>

lemma Validate_no_match:
  "\<forall>p \<in> set ps. \<not> MatchString p command \<Longrightarrow>
     Validate quote ps command s = (None, s\<lparr>evaluated := evaluated s @ map source ps\<rparr>)"
  by (induction ps arbitrary: s) simp_all

lemma Validate_first_match:
  assumes "\<forall>p \<in> set pre. \<not> MatchString p command" and "MatchString re command"
  shows "Validate quote (pre @ re # post) command s =
     (Some (ProcessErr ProcessErrExecution (blockedMessage quote re)),
      s\<lparr>evaluated := evaluated s @ map source pre @ [source re]\<rparr>)"
  using assms by (induction pre arbitrary: s) simp_all

lemma first_match_split:
  assumes "\<exists>re \<in> set ps. MatchString re command"
  shows "\<exists>re post. find (\<lambda>p. MatchString p command) ps = Some re \<and> MatchString re command
     \<and> ps = takeWhile (\<lambda>p. \<not> MatchString p command) ps @ re # post"
  using assms
proof (induction ps)
  case Nil
  then show ?case by simp
next
  case (Cons p ps)
  show ?case
  proof (cases "MatchString p command")
    case True
    then show ?thesis by simp
  next
    case False
    with Cons.prems have "\<exists>re \<in> set ps. MatchString re command" by simp
    then obtain re post where found: "find (\<lambda>p. MatchString p command) ps = Some re"
      and hit: "MatchString re command"
      and split: "ps = takeWhile (\<lambda>p. \<not> MatchString p command) ps @ re # post"
      using Cons.IH by blast
    from False have tw: "takeWhile (\<lambda>p. \<not> MatchString p command) (p # ps)
        = p # takeWhile (\<lambda>p. \<not> MatchString p command) ps"
      by simp
    have "p # ps = takeWhile (\<lambda>p. \<not> MatchString p command) (p # ps) @ re # post"
      unfolding tw by (metis split append_Cons)
    moreover from False found have "find (\<lambda>p. MatchString p command) (p # ps) = Some re"
      by simp
    ultimately show ?thesis using hit by blast
  qed
qed

text \<open>
  C3. When some pattern of the blocklist matches the command, \<open>Validate\<close> returns the
  error built from the first pattern that matches (\<^const>\<open>find\<close>): its message cites that
  pattern, quoted, and asks for a safer alternative. \<open>MatchString\<close> has been called on the
  patterns before the first match and on that pattern, and on no later one. An executor
  with this validator returns the same error with the zero \<open>Output\<close> for the bash action
  that carries the command, and its list of spawned processes is unchanged. The error is
  a \<open>ProcessErr\<close> of type \<open>execution\<close>: package agent has no separate type for a blocked
  command.
\<close>

theorem Validate_blocks_first_match:
  assumes "\<exists>re \<in> set ps. MatchString re command"
  shows "\<exists>re. find (\<lambda>p. MatchString p command) ps = Some re
     \<and> Validate quote ps command s =
         (Some (ProcessErr ProcessErrExecution
            (''Command blocked for safety: matches pattern '' @ quote (source re)
               @ ''. Please use a safer alternative.'')),
          s\<lparr>evaluated := evaluated s
               @ map source (takeWhile (\<lambda>p. \<not> MatchString p command) ps) @ [source re]\<rparr>)
     \<and> Execute duration run \<lparr>timeout = t, workingDir = d, validator = Some (Validate quote ps)\<rparr>
           \<lparr>Type = ActionTypeBash, Command = command\<rparr> s =
         ((Output_zero,
           Some (ProcessErr ProcessErrExecution
             (''Command blocked for safety: matches pattern '' @ quote (source re)
                @ ''. Please use a safer alternative.''))),
          s\<lparr>evaluated := evaluated s
               @ map source (takeWhile (\<lambda>p. \<not> MatchString p command) ps) @ [source re]\<rparr>)
     \<and> spawned (snd (Execute duration run
           \<lparr>timeout = t, workingDir = d, validator = Some (Validate quote ps)\<rparr>
           \<lparr>Type = ActionTypeBash, Command = command\<rparr> s)) = spawned s"
proof -
  let ?pre = "takeWhile (\<lambda>p. \<not> MatchString p command) ps"
  from first_match_split [OF assms] obtain re post where
    found: "find (\<lambda>p. MatchString p command) ps = Some re" and
    hit: "MatchString re command" and split: "ps = ?pre @ re # post"
    by blast
  have "\<forall>p \<in> set ?pre. \<not> MatchString p command"
    by (auto dest: set_takeWhileD)
  from Validate_first_match [OF this hit, of quote post s] split
  have v: "Validate quote ps command s =
     (Some (ProcessErr ProcessErrExecution (blockedMessage quote re)),
      s\<lparr>evaluated := evaluated s @ map source ?pre @ [source re]\<rparr>)"
    by simp
  then have "Execute duration run \<lparr>timeout = t, workingDir = d, validator = Some (Validate quote ps)\<rparr>
           \<lparr>Type = ActionTypeBash, Command = command\<rparr> s =
     ((Output_zero, Some (ProcessErr ProcessErrExecution (blockedMessage quote re))),
      s\<lparr>evaluated := evaluated s @ map source ?pre @ [source re]\<rparr>)"
    by (simp add: Execute_def)
  with found v show ?thesis by (simp add: blockedMessage_def)
qed

theorem Validate_blocks_first_match_witness:
  "Validate id demoPatterns ''reboot'' \<lparr>spawned = [], evaluated = []\<rparr> =
     (Some (ProcessErr ProcessErrExecution
        ''Command blocked for safety: matches pattern reboot. Please use a safer alternative.''),
      \<lparr>spawned = [], evaluated = [''mkfs'', ''reboot'']\<rparr>)
   \<and> Execute (\<lambda>t. ''30s'') demoRun
        \<lparr>timeout = 30, workingDir = '''', validator = Some (Validate id demoPatterns)\<rparr>
        \<lparr>Type = ActionTypeBash, Command = ''reboot''\<rparr> \<lparr>spawned = [], evaluated = []\<rparr> =
     ((Output_zero,
       Some (ProcessErr ProcessErrExecution
        ''Command blocked for safety: matches pattern reboot. Please use a safer alternative.'')),
      \<lparr>spawned = [], evaluated = [''mkfs'', ''reboot'']\<rparr>)"
proof -
  have "\<exists>re \<in> set demoPatterns. MatchString re ''reboot''"
    by (simp add: demoPatterns_def)
  from Validate_blocks_first_match [OF this, of id "\<lparr>spawned = [], evaluated = []\<rparr>"
      "\<lambda>t. ''30s''" demoRun 30 "''''"]
  show ?thesis by (simp add: demoPatterns_def)
qed

text \<open>
  C9. \<open>Execute\<close> of package agent and \<open>Execute\<close> of package local return the zero \<open>Output\<close>
  (empty stdout, empty stderr, exit code 0, not timed out) when they refuse the action:
  when its type is not \<open>bash\<close>, and when the validator returns an error. In both cases
  the executor's state is as the validator left it: no process has been spawned.
\<close>

theorem Execute_refusal_zero_output:
  "Output_zero = \<lparr>Stdout = '''', Stderr = '''', ExitCode = 0, TimedOut = False\<rparr>
   \<and> (Type action \<noteq> ActionTypeBash \<longrightarrow>
        Execute duration run e action s
          = ((Output_zero, Some (ErrorString (''unsupported action type: '' @ Type action))), s)
        \<and> local_Execute duration run e action s
          = ((Output_zero, Some (ErrorString (''unsupported action type: '' @ Type action))), s))
   \<and> (Type action = ActionTypeBash \<and> validator e = Some v
        \<and> v (Command action) s = (Some er, s') \<longrightarrow>
        Execute duration run e action s = ((Output_zero, Some er), s')
        \<and> local_Execute duration run e action s = ((Output_zero, Some er), s'))"
  by (simp add: Output_zero_def Execute_def local_Execute_def unsupportedMessage_def)

theorem Execute_refusal_zero_output_witness:
  "Execute (\<lambda>t. ''30s'') demoRun \<lparr>timeout = 30, workingDir = '''', validator = None\<rparr>
     \<lparr>Type = ''python'', Command = ''print(1)''\<rparr> \<lparr>spawned = [], evaluated = []\<rparr>
     = ((\<lparr>Stdout = '''', Stderr = '''', ExitCode = 0, TimedOut = False\<rparr>,
         Some (ErrorString ''unsupported action type: python'')),
        \<lparr>spawned = [], evaluated = []\<rparr>)
   \<and> local_Execute (\<lambda>t. ''30s'') demoRun
       \<lparr>timeout = 30, workingDir = '''',
        validator = Some (\<lambda>c s. (Some (ExecutionError ErrBlocked ''no''), s))\<rparr>
       \<lparr>Type = ''bash'', Command = ''halt''\<rparr> \<lparr>spawned = [], evaluated = []\<rparr>
     = ((\<lparr>Stdout = '''', Stderr = '''', ExitCode = 0, TimedOut = False\<rparr>,
         Some (ExecutionError ErrBlocked ''no'')),
        \<lparr>spawned = [], evaluated = []\<rparr>)"
proof -
  let ?s = "\<lparr>spawned = [], evaluated = []\<rparr>"
  let ?v = "\<lambda>(c :: string) (s :: sys). (Some (ExecutionError ErrBlocked ''no''), s)"
  have 1: "Type \<lparr>Type = ''python'', Command = ''print(1)''\<rparr> \<noteq> ActionTypeBash"
    by (simp add: ActionTypeBash_def)
  have 2: "Type \<lparr>Type = ''bash'', Command = ''halt''\<rparr> = ActionTypeBash
      \<and> validator \<lparr>timeout = 30, workingDir = '''', validator = Some ?v\<rparr> = Some ?v
      \<and> ?v (Command \<lparr>Type = ''bash'', Command = ''halt''\<rparr>) ?s
          = (Some (ExecutionError ErrBlocked ''no''), ?s)"
    by (simp add: ActionTypeBash_def)
  from 1 Execute_refusal_zero_output [of "\<lparr>Type = ''python'', Command = ''print(1)''\<rparr>"
      "\<lambda>t. ''30s''" demoRun "\<lparr>timeout = 30, workingDir = '''', validator = None\<rparr>" ?s]
  have a: "Execute (\<lambda>t. ''30s'') demoRun \<lparr>timeout = 30, workingDir = '''', validator = None\<rparr>
     \<lparr>Type = ''python'', Command = ''print(1)''\<rparr> ?s
     = ((\<lparr>Stdout = '''', Stderr = '''', ExitCode = 0, TimedOut = False\<rparr>,
         Some (ErrorString ''unsupported action type: python'')), ?s)"
    by simp
  from 2 Execute_refusal_zero_output [of "\<lparr>Type = ''bash'', Command = ''halt''\<rparr>"
      "\<lambda>t. ''30s''" demoRun "\<lparr>timeout = 30, workingDir = '''', validator = Some ?v\<rparr>" ?s
      ?v "ExecutionError ErrBlocked ''no''" ?s]
  have b: "local_Execute (\<lambda>t. ''30s'') demoRun
       \<lparr>timeout = 30, workingDir = '''', validator = Some ?v\<rparr>
       \<lparr>Type = ''bash'', Command = ''halt''\<rparr> ?s
     = ((\<lparr>Stdout = '''', Stderr = '''', ExitCode = 0, TimedOut = False\<rparr>,
         Some (ExecutionError ErrBlocked ''no'')), ?s)"
    by simp
  from a b show ?thesis by simp
qed

section \<open>One iteration of the loop\<close>

lemma Run_loop_limit:
  "\<not> step a < maxSteps (cfg a) \<Longrightarrow>
     Run_loop ctx a lastResponse = ((lastResponse, Some (TerminatingErr ReasonStepLimit '''')), a)"
  by (subst Run_loop.simps) simp

lemma Run_loop_terminal:
  "step a < maxSteps (cfg a) \<Longrightarrow> Step ctx a = ((response, Some e), a') \<Longrightarrow>
     asTerminatingErr e = Some (reason, out) \<Longrightarrow>
     Run_loop ctx a lastResponse = ((out, None), a')"
  by (subst Run_loop.simps) simp

lemma Run_loop_recoverable:
  "step a < maxSteps (cfg a) \<Longrightarrow> Step ctx a = ((response, Some e), a') \<Longrightarrow>
     asTerminatingErr e = None \<Longrightarrow> recoverMessage e = Some m \<Longrightarrow>
     Run_loop ctx a lastResponse =
       Run_loop ctx ((addMessage RoleUser m a')\<lparr>step := step a' + 1\<rparr>) lastResponse"
  by (subst Run_loop.simps) (auto simp: recoverMessage_def split: option.splits)

lemma Run_loop_fatal:
  "step a < maxSteps (cfg a) \<Longrightarrow> Step ctx a = ((response, Some e), a') \<Longrightarrow>
     asTerminatingErr e = None \<Longrightarrow> recoverMessage e = None \<Longrightarrow>
     Run_loop ctx a lastResponse = (('''', Some e), a')"
  by (subst Run_loop.simps) (auto simp: recoverMessage_def split: option.splits)

lemma Run_loop_next:
  "step a < maxSteps (cfg a) \<Longrightarrow> Step ctx a = ((response, None), a') \<Longrightarrow>
     Run_loop ctx a lastResponse = Run_loop ctx (a'\<lparr>step := step a' + 1\<rparr>) response"
  by (subst Run_loop.simps) simp

text \<open>Induction along the iterations of the loop.\<close>

lemma Run_loop_induct [case_names iteration]:
  assumes "\<And>a lastResponse.
     (\<And>response a'. step a < maxSteps (cfg a) \<Longrightarrow> Step ctx a = ((response, None), a') \<Longrightarrow>
        P (a'\<lparr>step := step a' + 1\<rparr>) response) \<Longrightarrow>
     (\<And>response e a' m. step a < maxSteps (cfg a) \<Longrightarrow>
        Step ctx a = ((response, Some e), a') \<Longrightarrow> asTerminatingErr e = None \<Longrightarrow>
        recoverMessage e = Some m \<Longrightarrow>
        P ((addMessage RoleUser m a')\<lparr>step := step a' + 1\<rparr>) lastResponse) \<Longrightarrow>
     P a lastResponse"
  shows "P a lastResponse"
proof -
  have "c = ctx \<Longrightarrow> P a lastResponse" for c
  proof (induction c a lastResponse rule: Run_loop.induct)
    case (1 c a lastResponse)
    show ?case
    proof (rule assms)
      fix response a'
      assume "step a < maxSteps (cfg a)" and "Step ctx a = ((response, None), a')"
      with "1.prems" show "P (a'\<lparr>step := step a' + 1\<rparr>) response"
        by (intro "1.IH"(1) [of "(response, None)" a' response None]) simp_all
    next
      fix response e a' m
      assume lt: "step a < maxSteps (cfg a)" and st: "Step ctx a = ((response, Some e), a')"
        and nt: "asTerminatingErr e = None" and rm: "recoverMessage e = Some m"
      show "P ((addMessage RoleUser m a')\<lparr>step := step a' + 1\<rparr>) lastResponse"
      proof (cases "asProcessErr e")
        case None
        with rm obtain t where "asExecutionError e = Some (t, m)"
          by (auto simp: recoverMessage_def split: option.splits prod.splits)
        with lt st nt None "1.prems" show ?thesis
          by (intro "1.IH"(2) [of "(response, Some e)" a' response "Some e" e "(t, m)" t m])
            simp_all
      next
        case (Some tm)
        with rm obtain t where "asProcessErr e = Some (t, m)"
          by (auto simp: recoverMessage_def split: option.splits prod.splits)
        with lt st nt "1.prems" show ?thesis
          by (intro "1.IH"(3) [of "(response, Some e)" a' response "Some e" e "(t, m)" t m])
            simp_all
      qed
    qed
  qed
  then show ?thesis by simp
qed

text \<open>What a step does when the parser fails, and when the environment is reached.\<close>

lemma Step_parse_failure:
  assumes "ctx (length (queried a)) = None"
    and "model a (length (queried a)) (messages a) = Inr response"
    and "parser (cfg a) = Some p" and "p response = Inl e"
  shows "Step ctx a = (('''', Some e), a\<lparr>queried := queried a @ [messages a]\<rparr>)"
  using assms by (simp add: Step_def Let_def)

lemma Step_reaches_env:
  assumes "ctx (length (queried a)) = None"
    and "model a (length (queried a)) (messages a) = Inr response"
    and "parser (cfg a) = Some p" and "p response = Inr action"
    and "output_writer (cfg a) \<noteq> None" and "notHandled a action"
    and "env a (length (queried a)) action = (out, res)"
  shows "Step ctx a =
     (case res of
        Some e \<Rightarrow> (('''', Some e), beforeExecute response action a)
      | None \<Rightarrow> handleOutput out (beforeExecute response action a))"
proof -
  from assms(5) obtain w where w: "output_writer (cfg a) = Some w" by auto
  show ?thesis
  proof (cases "actionHandler (cfg a)")
    case None
    with assms w show ?thesis
      by (cases w; cases res)
        (simp_all add: Step_def Let_def writeOutput_def addMessage_def executeInEnv_def
          beforeExecute_def)
  next
    case (Some h)
    with assms(6) have "\<not> fst (snd (h (length (queried a)) action))"
      by (simp add: notHandled_def)
    then obtain o1 e1 where "h (length (queried a)) action = (o1, False, e1)"
      by (cases "h (length (queried a)) action") auto
    with Some assms w show ?thesis
      by (cases w; cases res)
        (simp_all add: Step_def Let_def writeOutput_def addMessage_def executeInEnv_def
          beforeExecute_def)
  qed
qed

section \<open>The conversation history\<close>

lemma handleOutput_messages: "prefix (messages a) (messages (snd (handleOutput out a)))"
  by (auto simp: handleOutput_def addMessage_def split: option.splits
      dest!: writeOutput_frame)

lemma executeInEnv_messages: "prefix (messages a) (messages (snd (executeInEnv k action a)))"
proof -
  have "messages (a\<lparr>executed := executed a @ [action]\<rparr>) = messages a" by simp
  with handleOutput_messages [of "a\<lparr>executed := executed a @ [action]\<rparr>"]
  show ?thesis
    by (auto simp: executeInEnv_def Let_def split: prod.splits option.splits)
qed

lemma Step_messages: "prefix (messages a) (messages (snd (Step ctx a)))"
proof -
  have grow: "prefix (messages a) (messages (snd (handleOutput out b)))"
    if "prefix (messages a) (messages b)" for out b
    using that handleOutput_messages [of b out] by (rule prefix_order.trans)
  have grow': "prefix (messages a) (messages (snd (executeInEnv k action b)))"
    if "prefix (messages a) (messages b)" for k action b
    using that executeInEnv_messages [of b k action] by (rule prefix_order.trans)
  show ?thesis
    by (auto simp: Step_def Let_def addMessage_def
        split: option.splits sum.splits prod.splits
        dest!: writeOutput_frame intro!: grow grow')
qed

lemma Run_loop_messages: "prefix (messages a) (messages (snd (Run_loop ctx a lastResponse)))"
proof (induction a lastResponse rule: Run_loop_induct [where ctx = ctx])
  case (iteration a lastResponse)
  show ?case
  proof (cases "step a < maxSteps (cfg a)")
    case False
    then show ?thesis by (simp add: Run_loop_limit)
  next
    case True
    obtain response res a' where st: "Step ctx a = ((response, res), a')"
      by (metis surj_pair)
    with Step_messages [of a ctx] have pre: "prefix (messages a) (messages a')" by simp
    show ?thesis
    proof (cases res)
      case None
      with True st have "Run_loop ctx a lastResponse
          = Run_loop ctx (a'\<lparr>step := step a' + 1\<rparr>) response"
        by (simp add: Run_loop_next)
      moreover from None True st
      have "prefix (messages (a'\<lparr>step := step a' + 1\<rparr>))
          (messages (snd (Run_loop ctx (a'\<lparr>step := step a' + 1\<rparr>) response)))"
        by (intro iteration(1)) simp_all
      ultimately show ?thesis using pre by (auto intro: prefix_order.trans)
    next
      case (Some e)
      note e = Some
      show ?thesis
      proof (cases "asTerminatingErr e")
        case (Some ro)
        with True st e show ?thesis
          using pre by (cases ro) (simp add: Run_loop_terminal)
      next
        case None
        note nt = None
        show ?thesis
        proof (cases "recoverMessage e")
          case None
          with True st e nt show ?thesis
            using pre by (simp add: Run_loop_fatal)
        next
          case (Some m)
          with True st e nt have "Run_loop ctx a lastResponse
              = Run_loop ctx ((addMessage RoleUser m a')\<lparr>step := step a' + 1\<rparr>) lastResponse"
            by (simp add: Run_loop_recoverable)
          moreover from True st e nt Some
          have "prefix (messages ((addMessage RoleUser m a')\<lparr>step := step a' + 1\<rparr>))
              (messages (snd (Run_loop ctx ((addMessage RoleUser m a')\<lparr>step := step a' + 1\<rparr>)
                 lastResponse)))"
            by (intro iteration(2)) simp_all
          moreover have "prefix (messages a) (messages (addMessage RoleUser m a'))"
            using pre by (simp add: addMessage_def)
          ultimately show ?thesis by (auto intro: prefix_order.trans)
        qed
      qed
    qed
  qed
qed

section \<open>Invariants of the loop\<close>

text \<open>A property \<open>I\<close> kept by every iteration holds of the agent at each iteration, and
  what follows from it, or from a step taken under it, holds of the agent \<open>Run\<close> ends
  with.\<close>

lemma Run_loop_rule:
  assumes "I a"
    and "\<And>b. I b \<Longrightarrow> Q b"
    and "\<And>b r b'. I b \<Longrightarrow> step b < maxSteps (cfg b) \<Longrightarrow> Step ctx b = (r, b') \<Longrightarrow>
       Q b' \<and> I (b'\<lparr>step := step b' + 1\<rparr>)
       \<and> (\<forall>m. I ((addMessage RoleUser m b')\<lparr>step := step b' + 1\<rparr>))"
  shows "Q (snd (Run_loop ctx a lastResponse))"
  using assms(1)
proof (induction a lastResponse rule: Run_loop_induct [where ctx = ctx])
  case (iteration a lastResponse)
  show ?case
  proof (cases "step a < maxSteps (cfg a)")
    case False
    with iteration.prems assms(2) show ?thesis by (simp add: Run_loop_limit)
  next
    case True
    obtain response res a' where st: "Step ctx a = ((response, res), a')"
      by (metis surj_pair)
    from assms(3) [OF iteration.prems True st]
    have q: "Q a'" and i1: "I (a'\<lparr>step := step a' + 1\<rparr>)"
      and i2: "I ((addMessage RoleUser m a')\<lparr>step := step a' + 1\<rparr>)" for m
      by simp_all
    show ?thesis
    proof (cases res)
      case None
      with True st have "Run_loop ctx a lastResponse
          = Run_loop ctx (a'\<lparr>step := step a' + 1\<rparr>) response"
        by (simp add: Run_loop_next)
      moreover from None True st i1
      have "Q (snd (Run_loop ctx (a'\<lparr>step := step a' + 1\<rparr>) response))"
        by (intro iteration.IH(1)) simp_all
      ultimately show ?thesis by simp
    next
      case (Some e)
      note e = Some
      show ?thesis
      proof (cases "asTerminatingErr e")
        case (Some ro)
        with True st e q show ?thesis
          by (cases ro) (simp add: Run_loop_terminal)
      next
        case None
        note nt = None
        show ?thesis
        proof (cases "recoverMessage e")
          case None
          with True st e nt q show ?thesis
            by (simp add: Run_loop_fatal)
        next
          case (Some m)
          with True st e nt have "Run_loop ctx a lastResponse
              = Run_loop ctx ((addMessage RoleUser m a')\<lparr>step := step a' + 1\<rparr>) lastResponse"
            by (simp add: Run_loop_recoverable)
          moreover from True st e nt Some i2 [of m]
          have "Q (snd (Run_loop ctx ((addMessage RoleUser m a')\<lparr>step := step a' + 1\<rparr>)
              lastResponse))"
            by (intro iteration.IH(2)) simp_all
          ultimately show ?thesis by simp
        qed
      qed
    qed
  qed
qed

text \<open>A step makes at most one query, and exactly one when the context is live.\<close>

lemma Step_queried:
  "queried (snd (Step ctx a)) =
     (if ctx (length (queried a)) = None then queried a @ [messages a] else queried a)"
proof -
  have h: "queried (snd (handleOutput out b)) = queried b" for out b
    using handleOutput_frame [of out b] by (cases "handleOutput out b") simp
  have x: "queried (snd (executeInEnv k action b)) = queried b" for k action b
    using executeInEnv_frame [of k action b] by (cases "executeInEnv k action b") simp
  show ?thesis
    by (auto simp: Step_def Let_def addMessage_def h x
        split: option.splits sum.splits prod.splits dest!: writeOutput_frame)
qed

lemma Run_loop_queried_le:
  "length (queried (snd (Run_loop ctx a lastResponse)))
     \<le> length (queried a) + nat (maxSteps (cfg a) - step a)"
proof -
  let ?K = "length (queried a) + nat (maxSteps (cfg a) - step a)"
  let ?I = "\<lambda>b. length (queried b) + nat (maxSteps (cfg b) - step b) \<le> ?K"
  let ?Q = "\<lambda>b. length (queried b) \<le> ?K"
  have "?Q (snd (Run_loop ctx a lastResponse))"
  proof (rule Run_loop_rule [where I = ?I and Q = ?Q])
    show "?I a" by simp
  next
    fix b assume "?I b"
    then show "?Q b" by simp
  next
    fix b r b'
    assume i: "?I b" and lt: "step b < maxSteps (cfg b)" and st: "Step ctx b = (r, b')"
    from st Step_frame [OF st] have fr: "step b' = step b" "cfg b' = cfg b" by simp_all
    from st Step_queried [of ctx b] have "length (queried b') \<le> length (queried b) + 1"
      by (simp split: if_splits)
    with i lt fr show "?Q b' \<and> ?I (b'\<lparr>step := step b' + 1\<rparr>)
        \<and> (\<forall>m. ?I ((addMessage RoleUser m b')\<lparr>step := step b' + 1\<rparr>))"
      by (auto simp: addMessage_def)
  qed
  then show ?thesis .
qed

lemma Run_loop_queried_ge:
  "length (queried a) \<le> length (queried (snd (Run_loop ctx a lastResponse)))"
proof -
  let ?I = "\<lambda>b. length (queried a) \<le> length (queried b)"
  have "?I (snd (Run_loop ctx a lastResponse))"
  proof (rule Run_loop_rule [where I = ?I and Q = ?I])
    show "?I a" by simp
  next
    fix b assume "?I b"
    then show "?I b" .
  next
    fix b r b'
    assume i: "?I b" and st: "Step ctx b = (r, b')"
    from st Step_queried [of ctx b] have "length (queried b) \<le> length (queried b')"
      by (simp split: if_splits)
    with i show "?I b' \<and> ?I (b'\<lparr>step := step b' + 1\<rparr>)
        \<and> (\<forall>m. ?I ((addMessage RoleUser m b')\<lparr>step := step b' + 1\<rparr>))"
      by (auto simp: addMessage_def)
  qed
  then show ?thesis .
qed

section \<open>The constructor\<close>

lemma New_fields:
  "model (New m e c) = m" "env (New m e c) = e" "messages (New m e c) = []"
  "step (New m e c) = 0" "queried (New m e c) = []" "executed (New m e c) = []"
  "written (New m e c) = ''''"
  by (simp_all add: New_def Let_def)

lemma New_cfg:
  "maxSteps (cfg (New m e c)) = (if maxSteps c = 0 then 25 else maxSteps c)"
  "systemPrompt (cfg (New m e c))
     = (if systemPrompt c = '''' then DefaultSystemPrompt else systemPrompt c)"
  "output_writer (cfg (New m e c))
     = (if output_writer c = None then Some Discard else output_writer c)"
  "parser (cfg (New m e c)) = (if parser c = None then Some ParseAction else parser c)"
  "logger (cfg (New m e c)) = (if logger c = None then Some NopLogger else logger c)"
  "actionHandler (cfg (New m e c)) = actionHandler c"
  by (simp_all add: New_def Let_def)

lemma Run_start:
  "Run ctx task a =
     Run_loop ctx
       (a\<lparr>messages := [\<lparr>Role = RoleSystem, Content = systemPrompt (cfg a)\<rparr>,
                         \<lparr>Role = RoleUser, Content = task\<rparr>], step := 0\<rparr>) ''''"
  by (simp add: Run_def addMessage_def)

lemma Run_queried_le:
  "length (queried (snd (Run ctx task a))) \<le> length (queried a) + nat (maxSteps (cfg a))"
proof -
  let ?start = "a\<lparr>messages := [\<lparr>Role = RoleSystem, Content = systemPrompt (cfg a)\<rparr>,
    \<lparr>Role = RoleUser, Content = task\<rparr>], step := 0\<rparr>"
  have "length (queried (snd (Run_loop ctx ?start '''')))
      \<le> length (queried ?start) + nat (maxSteps (cfg ?start) - step ?start)"
    by (rule Run_loop_queried_le)
  then show ?thesis by (simp add: Run_start)
qed

lemma Run_first_query:
  assumes "ctx (length (queried a)) = None" and "0 < maxSteps (cfg a)"
  shows "length (queried a) < length (queried (snd (Run ctx task a)))"
proof -
  let ?start = "a\<lparr>messages := [\<lparr>Role = RoleSystem, Content = systemPrompt (cfg a)\<rparr>,
    \<lparr>Role = RoleUser, Content = task\<rparr>], step := 0\<rparr>"
  obtain response res a' where st: "Step ctx ?start = ((response, res), a')"
    by (metis surj_pair)
  from assms(1) st Step_queried [of ctx ?start]
  have q: "length (queried a') = length (queried a) + 1" by simp
  from assms(2) have lt: "step ?start < maxSteps (cfg ?start)" by simp
  have "length (queried a) < length (queried (snd (Run_loop ctx ?start '''')))"
  proof (cases res)
    case None
    with lt st have "Run_loop ctx ?start '''' = Run_loop ctx (a'\<lparr>step := step a' + 1\<rparr>) response"
      by (simp add: Run_loop_next)
    with q Run_loop_queried_ge [of "a'\<lparr>step := step a' + 1\<rparr>" ctx response]
    show ?thesis by simp
  next
    case (Some e)
    note e = Some
    show ?thesis
    proof (cases "asTerminatingErr e")
      case (Some ro)
      with lt st e q show ?thesis by (cases ro) (simp add: Run_loop_terminal)
    next
      case None
      note nt = None
      show ?thesis
      proof (cases "recoverMessage e")
        case None
        with lt st e nt q show ?thesis by (simp add: Run_loop_fatal)
      next
        case (Some m)
        with lt st e nt have "Run_loop ctx ?start ''''
            = Run_loop ctx ((addMessage RoleUser m a')\<lparr>step := step a' + 1\<rparr>) ''''"
          by (simp add: Run_loop_recoverable)
        with q Run_loop_queried_ge [of "(addMessage RoleUser m a')\<lparr>step := step a' + 1\<rparr>" ctx "''''"]
        show ?thesis by (simp add: addMessage_def)
      qed
    qed
  qed
  then show ?thesis by (simp add: Run_start)
qed

text \<open>
  C10. \<open>New\<close> on the zero \<open>Config\<close> yields an agent whose configuration has 25 steps, the
  default system prompt, the discarding writer, the bash fence parser and a silent
  logger; each default replaces the zero value of its field only. A \<open>Run\<close> of that agent
  queries the model at most 25 times, and at least once when the context is live. \<open>New\<close> on
  \<open>NewConfig()\<close> yields the same configuration.
\<close>

theorem New_substitutes_defaults:
  "cfg (New m e Config_zero)
     = \<lparr>parser = Some ParseAction, logger = Some NopLogger, output_writer = Some Discard,
        maxSteps = 25, systemPrompt = DefaultSystemPrompt, actionHandler = None\<rparr>
   \<and> cfg (New m e NewConfig) = cfg (New m e Config_zero)
   \<and> maxSteps (cfg (New m e c)) = (if maxSteps c = 0 then 25 else maxSteps c)
   \<and> systemPrompt (cfg (New m e c))
       = (if systemPrompt c = '''' then DefaultSystemPrompt else systemPrompt c)
   \<and> output_writer (cfg (New m e c))
       = (if output_writer c = None then Some Discard else output_writer c)
   \<and> parser (cfg (New m e c)) = (if parser c = None then Some ParseAction else parser c)
   \<and> length (queried (snd (Run ctx task (New m e Config_zero)))) \<le> 25
   \<and> (ctx 0 = None \<longrightarrow> 1 \<le> length (queried (snd (Run ctx task (New m e Config_zero)))))"
proof -
  have zero: "cfg (New m e Config_zero)
     = \<lparr>parser = Some ParseAction, logger = Some NopLogger, output_writer = Some Discard,
        maxSteps = 25, systemPrompt = DefaultSystemPrompt, actionHandler = None\<rparr>"
    by (simp add: New_def Config_zero_def)
  have same: "cfg (New m e NewConfig) = cfg (New m e Config_zero)"
    by (simp add: New_def Config_zero_def NewConfig_def Let_def)
  have "length (queried (snd (Run ctx task (New m e Config_zero))))
      \<le> length (queried (New m e Config_zero)) + nat (maxSteps (cfg (New m e Config_zero)))"
    by (rule Run_queried_le)
  then have le: "length (queried (snd (Run ctx task (New m e Config_zero)))) \<le> 25"
    by (simp add: zero New_fields)
  have ge: "1 \<le> length (queried (snd (Run ctx task (New m e Config_zero))))" if "ctx 0 = None"
  proof -
    from that have "ctx (length (queried (New m e Config_zero))) = None"
      by (simp add: New_fields)
    moreover have "0 < maxSteps (cfg (New m e Config_zero))" by (simp add: zero)
    ultimately have "length (queried (New m e Config_zero))
        < length (queried (snd (Run ctx task (New m e Config_zero))))"
      by (rule Run_first_query)
    then show ?thesis by simp
  qed
  from zero same le ge show ?thesis by (simp add: New_cfg)
qed

theorem New_substitutes_defaults_witness:
  "maxSteps (cfg (New talkModel idleEnv Config_zero)) = 25
   \<and> parser (cfg (New talkModel idleEnv (Config_zero\<lparr>maxSteps := 3\<rparr>))) = Some ParseAction
   \<and> maxSteps (cfg (New talkModel idleEnv (Config_zero\<lparr>maxSteps := 3\<rparr>))) = 3
   \<and> 1 \<le> length (queried (snd (Run neverCancelled ''task'' (New talkModel idleEnv Config_zero))))
   \<and> length (queried (snd (Run neverCancelled ''task'' (New talkModel idleEnv Config_zero))))
       \<le> 25"
proof -
  have "neverCancelled 0 = None" by (simp add: neverCancelled_def)
  with New_substitutes_defaults [of talkModel idleEnv "Config_zero\<lparr>maxSteps := 3\<rparr>"
      neverCancelled "''task''"]
  show ?thesis by (simp add: Config_zero_def)
qed

section \<open>The history is append-only\<close>

lemma Run_messages:
  "prefix [\<lparr>Role = RoleSystem, Content = systemPrompt (cfg a)\<rparr>,
           \<lparr>Role = RoleUser, Content = task\<rparr>]
     (messages (snd (Run ctx task a)))"
proof -
  let ?start = "a\<lparr>messages := [\<lparr>Role = RoleSystem, Content = systemPrompt (cfg a)\<rparr>,
    \<lparr>Role = RoleUser, Content = task\<rparr>], step := 0\<rparr>"
  have "Run ctx task a = Run_loop ctx ?start ''''"
    by (simp add: Run_def addMessage_def)
  moreover have "prefix (messages ?start) (messages (snd (Run_loop ctx ?start '''')))"
    by (rule Run_loop_messages)
  ultimately show ?thesis by simp
qed

text \<open>
  C6. \<open>addMessage\<close> appends one message and touches no other. The history before
  \<open>handleOutput\<close>, before a \<open>Step\<close> and before the rest of the loop, taken from any
  iteration, is a prefix of the history after it: nothing is changed or removed. \<open>Run\<close>
  starts from the empty history, and the history it ends with begins with the system
  prompt as a system message and the task as a user message.
\<close>

theorem history_append_only:
  "messages (addMessage role content a) = messages a @ [\<lparr>Role = role, Content = content\<rparr>]
   \<and> prefix (messages a) (messages (snd (handleOutput out a)))
   \<and> prefix (messages a) (messages (snd (Step ctx a)))
   \<and> prefix (messages a) (messages (snd (Run_loop ctx a lastResponse)))
   \<and> prefix [\<lparr>Role = RoleSystem, Content = systemPrompt (cfg a)\<rparr>,
              \<lparr>Role = RoleUser, Content = task\<rparr>]
        (messages (snd (Run ctx task a)))"
  by (simp add: addMessage_def handleOutput_messages Step_messages Run_loop_messages
      Run_messages)

section \<open>A step whose response does not parse\<close>

lemma no_fence_in_talk: "ParseAction ''I am done.'' = Inl (ProcessErr ProcessErrFormat noCommandMessage)"
  by code_simp

text \<open>
  C7. When the context is live, the model answers and the parser returns an error,
  \<open>Step\<close> returns that error and leaves the agent as it was but for the record of the
  query: the history is unchanged and holds no new assistant message. When the error is
  a \<open>ProcessErr\<close> of type \<open>format\<close> and the step budget is not used up, the loop goes on
  from the agent whose history has the error's message appended as a user message, and
  nothing else, with the step counter advanced by one.
\<close>

theorem parse_failure_leaves_history:
  assumes "ctx (length (queried a)) = None"
    and "model a (length (queried a)) (messages a) = Inr response"
    and "parser (cfg a) = Some p" and "p response = Inl e"
  shows "Step ctx a = (('''', Some e), a\<lparr>queried := queried a @ [messages a]\<rparr>)
     \<and> messages (snd (Step ctx a)) = messages a
     \<and> (step a < maxSteps (cfg a) \<and> e = ProcessErr ProcessErrFormat m \<longrightarrow>
          Run_loop ctx a lastResponse =
            Run_loop ctx
              (a\<lparr>queried := queried a @ [messages a],
                 messages := messages a @ [\<lparr>Role = RoleUser, Content = m\<rparr>],
                 step := step a + 1\<rparr>)
              lastResponse)"
proof -
  from assms have st: "Step ctx a = (('''', Some e), a\<lparr>queried := queried a @ [messages a]\<rparr>)"
    by (rule Step_parse_failure)
  have "Run_loop ctx a lastResponse =
      Run_loop ctx
        (a\<lparr>queried := queried a @ [messages a],
           messages := messages a @ [\<lparr>Role = RoleUser, Content = m\<rparr>],
           step := step a + 1\<rparr>)
        lastResponse"
    if "step a < maxSteps (cfg a)" and "e = ProcessErr ProcessErrFormat m"
  proof -
    from that(2) have "asTerminatingErr e = None" and "recoverMessage e = Some m"
      by (simp_all add: recoverMessage_def)
    with that(1) st have "Run_loop ctx a lastResponse =
        Run_loop ctx
          ((addMessage RoleUser m (a\<lparr>queried := queried a @ [messages a]\<rparr>))
             \<lparr>step := step (a\<lparr>queried := queried a @ [messages a]\<rparr>) + 1\<rparr>)
          lastResponse"
      by (rule Run_loop_recoverable)
    then show ?thesis by (simp add: addMessage_def)
  qed
  with st show ?thesis by simp
qed

theorem parse_failure_leaves_history_witness:
  "Step neverCancelled talkAgent
     = (('''', Some (ProcessErr ProcessErrFormat noCommandMessage)),
        talkAgent\<lparr>queried := [[]]\<rparr>)
   \<and> messages (snd (Step neverCancelled talkAgent)) = []
   \<and> Run_loop neverCancelled talkAgent ''''
     = Run_loop neverCancelled
         (talkAgent\<lparr>queried := [[]],
            messages := [\<lparr>Role = RoleUser, Content = noCommandMessage\<rparr>], step := 1\<rparr>) ''''"
proof -
  have "neverCancelled (length (queried talkAgent)) = None"
    by (simp add: neverCancelled_def)
  moreover have "model talkAgent (length (queried talkAgent)) (messages talkAgent)
      = Inr ''I am done.''"
    by (simp add: talkAgent_def New_fields talkModel_def)
  moreover have "parser (cfg talkAgent) = Some ParseAction"
    by (simp add: talkAgent_def New_cfg Config_zero_def)
  ultimately have "Step neverCancelled talkAgent
       = (('''', Some (ProcessErr ProcessErrFormat noCommandMessage)),
          talkAgent\<lparr>queried := queried talkAgent @ [messages talkAgent]\<rparr>)
     \<and> messages (snd (Step neverCancelled talkAgent)) = messages talkAgent
     \<and> (step talkAgent < maxSteps (cfg talkAgent)
          \<and> ProcessErr ProcessErrFormat noCommandMessage
              = ProcessErr ProcessErrFormat noCommandMessage \<longrightarrow>
          Run_loop neverCancelled talkAgent '''' =
            Run_loop neverCancelled
              (talkAgent\<lparr>queried := queried talkAgent @ [messages talkAgent],
                 messages := messages talkAgent
                   @ [\<lparr>Role = RoleUser, Content = noCommandMessage\<rparr>],
                 step := step talkAgent + 1\<rparr>)
              '''')"
    using no_fence_in_talk by (rule parse_failure_leaves_history)
  moreover have "queried talkAgent = []" "messages talkAgent = []" "step talkAgent = 0"
    "maxSteps (cfg talkAgent) = 25"
    by (simp_all add: talkAgent_def New_fields New_cfg Config_zero_def)
  ultimately show ?thesis by simp
qed

section \<open>The completion marker\<close>

lemma hd_SplitN2: "hd (SplitN2 s) = takeWhile (\<lambda>c. c \<noteq> CHR 0x0A) s"
proof (cases "CHR 0x0A \<in> set s")
  case True
  then show ?thesis by (simp add: SplitN2_def)
next
  case False
  then have "takeWhile (\<lambda>c. c \<noteq> CHR 0x0A) s = s"
    by (subst takeWhile_eq_all_conv) auto
  moreover from False have "SplitN2 s = [s]" by (simp add: SplitN2_def)
  ultimately show ?thesis by (simp only: list.sel)
qed

lemma marker_no_spaceByte: "c \<in> set completionMarker \<Longrightarrow> \<not> spaceByte c"
  by (rule letter_no_spaceByte) (auto simp: completionMarker_def)

lemma marker_ends:
  "completionMarker \<noteq> []" "\<not> spaceByte (hd completionMarker)"
  "\<not> spaceByte (last completionMarker)"
proof -
  show "completionMarker \<noteq> []" by (simp add: completionMarker_def)
  have "hd completionMarker \<in> set completionMarker" by (simp add: completionMarker_def)
  then show "\<not> spaceByte (hd completionMarker)" by (rule marker_no_spaceByte)
  have "last completionMarker \<in> set completionMarker" by (simp add: completionMarker_def)
  then show "\<not> spaceByte (last completionMarker)" by (rule marker_no_spaceByte)
qed

lemma TrimSpace_marker: "TrimSpace completionMarker = completionMarker"
  using marker_ends by (rule TrimSpace_nonblank)

lemma first_line_marker_complete:
  assumes "takeWhile (\<lambda>c. c \<noteq> CHR 0x0A) (Stdout out) = completionMarker"
  shows "isTaskComplete out"
proof -
  let ?P = "\<lambda>c. c \<noteq> CHR 0x0A"
  let ?rest = "dropWhile ?P (Stdout out)"
  from assms have split: "Stdout out = completionMarker @ ?rest"
    by (metis takeWhile_dropWhile_id)
  have rest: "?rest = [] \<or> hd ?rest = CHR 0x0A"
    using hd_dropWhile [of ?P "Stdout out"] by auto
  from TrimSpace_keeps [OF marker_ends, of ?rest] obtain ys where
    trimmed: "TrimSpace (completionMarker @ ?rest) = completionMarker @ ys" and
    ys: "prefix ys ?rest"
    by blast
  from ys rest have "ys = [] \<or> hd ys = CHR 0x0A"
    by (cases ys; cases ?rest) (auto simp: prefix_def)
  then have "takeWhile ?P ys = []" by (cases ys) auto
  moreover have "\<forall>c \<in> set completionMarker. ?P c" by (simp add: completionMarker_def)
  ultimately have "takeWhile ?P (completionMarker @ ys) = completionMarker"
    by (simp add: takeWhile_append2)
  with trimmed split have "hd (SplitN2 (TrimSpace (Stdout out))) = completionMarker"
    by (simp add: hd_SplitN2)
  then show ?thesis by (simp add: isTaskComplete_def TrimSpace_marker)
qed

lemma extractFinalOutput_after_first_line:
  "extractFinalOutput out =
     TrimSpace (drop (Suc (length (takeWhile (\<lambda>c. c \<noteq> CHR 0x0A) (Stdout out)))) (Stdout out))"
proof (cases "CHR 0x0A \<in> set (Stdout out)")
  case True
  have "tl (dropWhile (\<lambda>c. c \<noteq> CHR 0x0A) (Stdout out))
      = drop (Suc (length (takeWhile (\<lambda>c. c \<noteq> CHR 0x0A) (Stdout out)))) (Stdout out)"
    by (simp add: dropWhile_eq_drop drop_Suc tl_drop)
  with True show ?thesis by (simp add: extractFinalOutput_def SplitN2_def)
next
  case False
  then have all: "takeWhile (\<lambda>c. c \<noteq> CHR 0x0A) (Stdout out) = Stdout out"
    by (subst takeWhile_eq_all_conv) auto
  from False have none: "extractFinalOutput out = []"
    by (simp add: extractFinalOutput_def SplitN2_def)
  have "drop (Suc (length (takeWhile (\<lambda>c. c \<noteq> CHR 0x0A) (Stdout out)))) (Stdout out) = []"
    unfolding all by simp
  then show ?thesis unfolding none by (simp only: TrimSpace_Nil)
qed

lemma handleOutput_complete:
  "isTaskComplete out \<Longrightarrow>
     handleOutput out a =
       ((extractFinalOutput out, Some (TerminatingErr ReasonComplete (extractFinalOutput out))), a)"
  by (simp add: handleOutput_def)

text \<open>
  C1. Let the first line of the stdout (the bytes before its first line feed) be the
  marker \<open>TASK_COMPLETE\<close>. Then \<open>handleOutput\<close> returns the terminating signal with reason
  \<open>complete\<close>, whose output is the stdout after that line and its line feed, trimmed, and
  leaves the agent as it is: nothing is appended to the history and nothing is written.
  When a step reaches the environment and the environment returns this output with no
  error, \<open>Step\<close> returns that signal, the only new message is the assistant's response,
  and the loop ends there: \<open>Run\<close> returns the final output with a nil error.
\<close>

theorem completion_marker_terminates:
  assumes "takeWhile (\<lambda>c. c \<noteq> CHR 0x0A) (Stdout out) = completionMarker"
  shows "isTaskComplete out
     \<and> extractFinalOutput out = TrimSpace (drop (Suc (length completionMarker)) (Stdout out))
     \<and> handleOutput out a =
         ((extractFinalOutput out,
           Some (TerminatingErr ReasonComplete (extractFinalOutput out))), a)
     \<and> (ctx (length (queried a)) = None
          \<and> model a (length (queried a)) (messages a) = Inr response
          \<and> parser (cfg a) = Some p \<and> p response = Inr action
          \<and> output_writer (cfg a) \<noteq> None \<and> notHandled a action
          \<and> env a (length (queried a)) action = (out, None)
          \<and> step a < maxSteps (cfg a) \<longrightarrow>
          Step ctx a =
            ((extractFinalOutput out,
              Some (TerminatingErr ReasonComplete (extractFinalOutput out))),
             beforeExecute response action a)
          \<and> messages (beforeExecute response action a)
              = messages a @ [\<lparr>Role = RoleAssistant, Content = response\<rparr>]
          \<and> Run_loop ctx a lastResponse
              = ((extractFinalOutput out, None), beforeExecute response action a))"
proof -
  from assms have complete: "isTaskComplete out" by (rule first_line_marker_complete)
  from assms have final: "extractFinalOutput out
      = TrimSpace (drop (Suc (length completionMarker)) (Stdout out))"
    by (simp add: extractFinalOutput_after_first_line)
  have loop: "Step ctx a =
        ((extractFinalOutput out,
          Some (TerminatingErr ReasonComplete (extractFinalOutput out))),
         beforeExecute response action a)
      \<and> messages (beforeExecute response action a)
          = messages a @ [\<lparr>Role = RoleAssistant, Content = response\<rparr>]
      \<and> Run_loop ctx a lastResponse
          = ((extractFinalOutput out, None), beforeExecute response action a)"
    if live: "ctx (length (queried a)) = None"
      and answer: "model a (length (queried a)) (messages a) = Inr response"
      and p: "parser (cfg a) = Some p" "p response = Inr action"
      and w: "output_writer (cfg a) \<noteq> None" and nh: "notHandled a action"
      and ex: "env a (length (queried a)) action = (out, None)"
      and lt: "step a < maxSteps (cfg a)"
  proof -
    from Step_reaches_env [of ctx a response p action out None] live answer p w nh ex
      complete
    have st: "Step ctx a =
        ((extractFinalOutput out,
          Some (TerminatingErr ReasonComplete (extractFinalOutput out))),
         beforeExecute response action a)"
      by (simp add: handleOutput_complete)
    have "asTerminatingErr (TerminatingErr ReasonComplete (extractFinalOutput out))
        = Some (ReasonComplete, extractFinalOutput out)"
      by simp
    with lt st have "Run_loop ctx a lastResponse
        = ((extractFinalOutput out, None), beforeExecute response action a)"
      by (rule Run_loop_terminal)
    with st show ?thesis by (simp add: beforeExecute_def)
  qed
  from complete final loop show ?thesis by (simp add: handleOutput_complete)
qed

lemma echoResponse_parses:
  "ParseAction echoResponse = Inr \<lparr>Type = ActionTypeBash, Command = echoCommand\<rparr>"
  by code_simp

lemma summary_trimmed: "TrimSpace (''Summary: X'' @ [CHR 0x0A]) = ''Summary: X''"
  by code_simp

theorem completion_marker_terminates_witness:
  "handleOutput summaryOutput echoAgent
     = ((''Summary: X'', Some (TerminatingErr ReasonComplete ''Summary: X'')), echoAgent)
   \<and> Step neverCancelled echoAgent
     = ((''Summary: X'', Some (TerminatingErr ReasonComplete ''Summary: X'')),
        beforeExecute echoResponse \<lparr>Type = ActionTypeBash, Command = echoCommand\<rparr> echoAgent)
   \<and> messages (beforeExecute echoResponse \<lparr>Type = ActionTypeBash, Command = echoCommand\<rparr>
        echoAgent)
     = [\<lparr>Role = RoleSystem, Content = DefaultSystemPrompt\<rparr>,
        \<lparr>Role = RoleUser, Content = ''finish''\<rparr>,
        \<lparr>Role = RoleAssistant, Content = echoResponse\<rparr>]
   \<and> Run neverCancelled ''finish'' (New echoModel echoEnv Config_zero)
     = ((''Summary: X'', None),
        beforeExecute echoResponse \<lparr>Type = ActionTypeBash, Command = echoCommand\<rparr> echoAgent)"
proof -
  let ?action = "\<lparr>Type = ActionTypeBash, Command = echoCommand\<rparr>"
  have first: "takeWhile (\<lambda>c. c \<noteq> CHR 0x0A) (Stdout summaryOutput) = completionMarker"
    by (simp add: summaryOutput_def completionMarker_def)
  have final: "TrimSpace (drop (Suc (length completionMarker)) (Stdout summaryOutput))
      = ''Summary: X''"
    using summary_trimmed by (simp add: summaryOutput_def completionMarker_def)
  have agent: "neverCancelled (length (queried echoAgent)) = None"
    "model echoAgent (length (queried echoAgent)) (messages echoAgent) = Inr echoResponse"
    "parser (cfg echoAgent) = Some ParseAction"
    "output_writer (cfg echoAgent) \<noteq> None" "notHandled echoAgent ?action"
    "env echoAgent (length (queried echoAgent)) ?action = (summaryOutput, None)"
    "step echoAgent < maxSteps (cfg echoAgent)"
    by (simp_all add: echoAgent_def neverCancelled_def New_fields New_cfg Config_zero_def
        echoModel_def echoEnv_def notHandled_def)
  have start: "Run neverCancelled ''finish'' (New echoModel echoEnv Config_zero)
      = Run_loop neverCancelled echoAgent ''''"
    by (simp add: Run_start echoAgent_def New_def Config_zero_def)
  from completion_marker_terminates [OF first, of echoAgent neverCancelled echoResponse
      ParseAction ?action "''''"] final agent echoResponse_parses start
  show ?thesis by (simp add: echoAgent_def)
qed

section \<open>A command that exceeds the timeout\<close>

lemma Run_loop_env_error:
  assumes "ctx (length (queried a)) = None"
    and "model a (length (queried a)) (messages a) = Inr response"
    and "parser (cfg a) = Some p" and "p response = Inr action"
    and "output_writer (cfg a) \<noteq> None" and "notHandled a action"
    and "step a < maxSteps (cfg a)"
    and "env a (length (queried a)) action = (out, Some er)"
    and "asTerminatingErr er = None" and "recoverMessage er = Some m"
  shows "Run_loop ctx a lastResponse = Run_loop ctx (afterFeedback response action m a) lastResponse"
proof -
  from Step_reaches_env [of ctx a response p action out "Some er"] assms
  have "Step ctx a = (('''', Some er), beforeExecute response action a)" by simp
  with assms(7) have "Run_loop ctx a lastResponse =
      Run_loop ctx
        ((addMessage RoleUser m (beforeExecute response action a))
           \<lparr>step := step (beforeExecute response action a) + 1\<rparr>) lastResponse"
    using assms(9,10) by (rule Run_loop_recoverable)
  then show ?thesis by (simp add: afterFeedback_def addMessage_def beforeExecute_def)
qed

lemma Run_loop_env_feedback:
  assumes "reachesEnv ctx a response action" and "step a < maxSteps (cfg a)"
    and "env a (length (queried a)) action = (out, Some er)"
    and "asTerminatingErr er = None" and "recoverMessage er = Some m"
  shows "Run_loop ctx a lastResponse = Run_loop ctx (afterFeedback response action m a) lastResponse"
proof -
  from assms(1) obtain p where "ctx (length (queried a)) = None"
    "model a (length (queried a)) (messages a) = Inr response"
    "parser (cfg a) = Some p" "p response = Inr action"
    "output_writer (cfg a) \<noteq> None" "notHandled a action"
    by (auto simp: reachesEnv_def)
  then show ?thesis using assms(2-5) by (rule Run_loop_env_error)
qed

text \<open>
  C5. Let the action be a bash action that passes the validator, and let \<open>cmd.Run()\<close> on
  its process return an error after the deadline of the derived context has passed.
  Then \<open>Execute\<close> returns the captured stdout and stderr with \<open>TimedOut\<close> set, and a
  \<open>ProcessErr\<close> of type \<open>timeout\<close> whose message ends with that output as \<open>Output.String\<close>
  prints it, the stdout first; \<open>Execute\<close> of package local returns the same output with
  an \<open>ExecutionError\<close> of type \<open>timeout\<close>. In a step that reaches an environment which
  answers with either result, the loop does not return: it appends the assistant's
  response and the error's message as a user message, advances the step counter and goes
  on.
\<close>

theorem timeout_is_recoverable:
  assumes "Type action = ActionTypeBash"
    and "(case validator e of None \<Rightarrow> (None, s) | Some v \<Rightarrow> v (Command action) s) = (None, s1)"
    and "run (length (spawned s1)) (workingDir e) (Command action) (timeout e) = r"
    and "procErr r = Some re" and "deadlineExceeded r"
  shows "Execute duration run e action s =
       ((partialOutput r,
         Some (ProcessErr ProcessErrTimeout
           (''Command timed out after '' @ duration (timeout e) @ ''. Partial output:''
              @ [CHR 0x0A] @ Output_String (partialOutput r)))),
        s1\<lparr>spawned := spawned s1 @ [(workingDir e, Command action)]\<rparr>)
     \<and> local_Execute duration run e action s =
         ((partialOutput r,
           Some (ExecutionError ErrTimeout
             (''Command timed out after '' @ duration (timeout e) @ ''. Partial output:''
                @ [CHR 0x0A] @ env_Output_String (partialOutput r)))),
          s1\<lparr>spawned := spawned s1 @ [(workingDir e, Command action)]\<rparr>)
     \<and> partialOutput r
         = \<lparr>Stdout = procStdout r, Stderr = procStderr r, ExitCode = 0, TimedOut = True\<rparr>
     \<and> prefix (procStdout r) (Output_String (partialOutput r))
     \<and> prefix (procStdout r) (env_Output_String (partialOutput r))
     \<and> (reachesEnv ctx a response action \<and> step a < maxSteps (cfg a)
          \<and> env a (length (queried a)) action = fst (Execute duration run e action s) \<longrightarrow>
          Run_loop ctx a lastResponse =
            Run_loop ctx
              (afterFeedback response action
                 (''Command timed out after '' @ duration (timeout e) @ ''. Partial output:''
                    @ [CHR 0x0A] @ Output_String (partialOutput r)) a)
              lastResponse)
     \<and> (reachesEnv ctx a response action \<and> step a < maxSteps (cfg a)
          \<and> env a (length (queried a)) action = fst (local_Execute duration run e action s) \<longrightarrow>
          Run_loop ctx a lastResponse =
            Run_loop ctx
              (afterFeedback response action
                 (''Command timed out after '' @ duration (timeout e) @ ''. Partial output:''
                    @ [CHR 0x0A] @ env_Output_String (partialOutput r)) a)
              lastResponse)"
proof -
  let ?s2 = "s1\<lparr>spawned := spawned s1 @ [(workingDir e, Command action)]\<rparr>"
  let ?m = "''Command timed out after '' @ duration (timeout e) @ ''. Partial output:''
    @ [CHR 0x0A] @ Output_String (partialOutput r)"
  let ?m' = "''Command timed out after '' @ duration (timeout e) @ ''. Partial output:''
    @ [CHR 0x0A] @ env_Output_String (partialOutput r)"
  from assms have ex: "Execute duration run e action s
      = ((partialOutput r, Some (ProcessErr ProcessErrTimeout ?m)), ?s2)"
    by (simp add: Execute_def Let_def partialOutput_def timeoutMessage_def)
  from assms have lex: "local_Execute duration run e action s
      = ((partialOutput r, Some (ExecutionError ErrTimeout ?m')), ?s2)"
    by (simp add: local_Execute_def Let_def partialOutput_def timeoutMessage_def)
  have shown: "prefix (procStdout r) (Output_String (partialOutput r))"
    "prefix (procStdout r) (env_Output_String (partialOutput r))"
    by (simp_all add: Output_String_def env_Output_String_def partialOutput_def)
  have go: "Run_loop ctx a lastResponse
      = Run_loop ctx (afterFeedback response action ?m a) lastResponse"
    if "reachesEnv ctx a response action" and "step a < maxSteps (cfg a)"
      and "env a (length (queried a)) action = fst (Execute duration run e action s)"
  proof -
    from that(3) ex have "env a (length (queried a)) action
        = (partialOutput r, Some (ProcessErr ProcessErrTimeout ?m))"
      by simp
    with that(1,2) show ?thesis
      by (rule Run_loop_env_feedback) (simp_all add: recoverMessage_def)
  qed
  have lgo: "Run_loop ctx a lastResponse
      = Run_loop ctx (afterFeedback response action ?m' a) lastResponse"
    if "reachesEnv ctx a response action" and "step a < maxSteps (cfg a)"
      and "env a (length (queried a)) action = fst (local_Execute duration run e action s)"
  proof -
    from that(3) lex have "env a (length (queried a)) action
        = (partialOutput r, Some (ExecutionError ErrTimeout ?m'))"
      by simp
    with that(1,2) show ?thesis
      by (rule Run_loop_env_feedback) (simp_all add: recoverMessage_def)
  qed
  from ex lex shown go lgo show ?thesis by (simp add: partialOutput_def)
qed

lemma sleepResponse_parses:
  "ParseAction sleepResponse = Inr \<lparr>Type = ActionTypeBash, Command = ''sleep 60''\<rparr>"
  by code_simp

theorem timeout_is_recoverable_witness:
  "Execute (\<lambda>t. ''30s'') demoRun plainExecutor \<lparr>Type = ActionTypeBash, Command = ''sleep 60''\<rparr>
       \<lparr>spawned = [], evaluated = []\<rparr>
     = ((\<lparr>Stdout = ''partial'', Stderr = ''slow'', ExitCode = 0, TimedOut = True\<rparr>,
         Some (ProcessErr ProcessErrTimeout
           (''Command timed out after 30s. Partial output:'' @ [CHR 0x0A] @ ''partial''
              @ [CHR 0x0A] @ ''stderr: slow''))),
        \<lparr>spawned = [('''', ''sleep 60'')], evaluated = []\<rparr>)
   \<and> Run_loop neverCancelled sleepAgent ''''
     = Run_loop neverCancelled
         (afterFeedback sleepResponse \<lparr>Type = ActionTypeBash, Command = ''sleep 60''\<rparr>
            (''Command timed out after 30s. Partial output:'' @ [CHR 0x0A] @ ''partial''
               @ [CHR 0x0A] @ ''stderr: slow'')
            sleepAgent) ''''
   \<and> messages (afterFeedback sleepResponse \<lparr>Type = ActionTypeBash, Command = ''sleep 60''\<rparr>
         (''Command timed out after 30s. Partial output:'' @ [CHR 0x0A] @ ''partial''
            @ [CHR 0x0A] @ ''stderr: slow'')
         sleepAgent)
     = [\<lparr>Role = RoleAssistant, Content = sleepResponse\<rparr>,
        \<lparr>Role = RoleUser,
         Content = ''Command timed out after 30s. Partial output:'' @ [CHR 0x0A] @ ''partial''
           @ [CHR 0x0A] @ ''stderr: slow''\<rparr>]"
proof -
  let ?action = "\<lparr>Type = ActionTypeBash, Command = ''sleep 60''\<rparr>"
  let ?s = "\<lparr>spawned = [], evaluated = []\<rparr>"
  let ?r = "demoRun 0 '''' ''sleep 60'' 30000000000"
  have pre: "Type ?action = ActionTypeBash"
    "(case validator plainExecutor of None \<Rightarrow> (None, ?s)
      | Some v \<Rightarrow> v (Command ?action) ?s) = (None, ?s)"
    "demoRun (length (spawned ?s)) (workingDir plainExecutor) (Command ?action)
       (timeout plainExecutor) = ?r"
    "procErr ?r = Some (ExitError ''signal: killed'' (- 1))" "deadlineExceeded ?r"
    by (simp_all add: plainExecutor_def demoRun_def)
  have agent: "reachesEnv neverCancelled sleepAgent sleepResponse ?action"
    "step sleepAgent < maxSteps (cfg sleepAgent)"
    "env sleepAgent (length (queried sleepAgent)) ?action
      = fst (Execute (\<lambda>t. ''30s'') demoRun plainExecutor ?action ?s)"
    using sleepResponse_parses
    by (simp_all add: reachesEnv_def sleepAgent_def neverCancelled_def New_fields New_cfg
        Config_zero_def sleepModel_def timedEnv_def notHandled_def)
  from timeout_is_recoverable [where action = ?action and e = plainExecutor and s = ?s
      and ?s1.0 = ?s and run = demoRun and r = ?r and re = "ExitError ''signal: killed'' (- 1)"
      and duration = "\<lambda>t. ''30s''" and ctx = neverCancelled and a = sleepAgent
      and response = sleepResponse and lastResponse = "''''"] pre agent
  show ?thesis
    by (simp add: partialOutput_def Output_String_def demoRun_def plainExecutor_def
        afterFeedback_def beforeExecute_def sleepAgent_def New_fields)
qed

section \<open>The step limit\<close>

lemma Run_loop_count:
  assumes "neverStops ctx a0" and "sameSession a0 a"
  shows "\<exists>last a'. Run_loop ctx a lastResponse
       = ((last, Some (TerminatingErr ReasonStepLimit '''')), a')
     \<and> length (queried a') = length (queried a) + nat (maxSteps (cfg a) - step a)
     \<and> step a' = max (step a) (maxSteps (cfg a))"
  using assms(2)
proof (induction a lastResponse rule: Run_loop_induct [where ctx = ctx])
  case (iteration a lastResponse)
  from assms(1) have live: "ctx k = None" for k by (simp add: neverStops_def)
  show ?case
  proof (cases "step a < maxSteps (cfg a)")
    case False
    then show ?thesis by (simp add: Run_loop_limit)
  next
    case True
    obtain response res a' where st: "Step ctx a = ((response, res), a')"
      by (metis surj_pair)
    from Step_frame [OF st] have fr: "step a' = step a" "cfg a' = cfg a" "model a' = model a"
      "env a' = env a"
      by simp_all
    from st Step_queried [of ctx a] have q: "queried a' = queried a @ [messages a]"
      by (simp add: live)
    from assms(1) iteration.prems have "continues ctx a" by (simp add: neverStops_def)
    with st have res: "res = None \<or> (\<exists>e m. res = Some e \<and> asTerminatingErr e = None
        \<and> recoverMessage e = Some m)"
      by (auto simp: continues_def split: option.splits)
    from True have count: "Suc (length (queried a) + nat (maxSteps (cfg a) - (step a + 1)))
        = length (queried a) + nat (maxSteps (cfg a) - step a)"
      by simp
    from True have top: "max (step a + 1) (maxSteps (cfg a)) = max (step a) (maxSteps (cfg a))"
      by simp
    from res show ?thesis
    proof
      assume none: "res = None"
      from iteration.prems fr have "sameSession a0 (a'\<lparr>step := step a' + 1\<rparr>)"
        by (simp add: sameSession_def)
      with none True st obtain last b where
        "Run_loop ctx (a'\<lparr>step := step a' + 1\<rparr>) response
          = ((last, Some (TerminatingErr ReasonStepLimit '''')), b)"
        "length (queried b) = length (queried (a'\<lparr>step := step a' + 1\<rparr>))
          + nat (maxSteps (cfg (a'\<lparr>step := step a' + 1\<rparr>)) - step (a'\<lparr>step := step a' + 1\<rparr>))"
        "step b = max (step (a'\<lparr>step := step a' + 1\<rparr>)) (maxSteps (cfg (a'\<lparr>step := step a' + 1\<rparr>)))"
        using iteration.IH(1) [of response a'] by blast
      moreover from none True st have "Run_loop ctx a lastResponse
          = Run_loop ctx (a'\<lparr>step := step a' + 1\<rparr>) response"
        by (simp add: Run_loop_next)
      ultimately show ?thesis using fr q count top by simp
    next
      assume "\<exists>e m. res = Some e \<and> asTerminatingErr e = None \<and> recoverMessage e = Some m"
      then obtain e m where e: "res = Some e" "asTerminatingErr e = None"
        "recoverMessage e = Some m"
        by blast
      let ?next = "(addMessage RoleUser m a')\<lparr>step := step a' + 1\<rparr>"
      from iteration.prems fr have "sameSession a0 ?next"
        by (simp add: sameSession_def addMessage_def)
      with e True st obtain last b where
        "Run_loop ctx ?next lastResponse = ((last, Some (TerminatingErr ReasonStepLimit '''')), b)"
        "length (queried b) = length (queried ?next) + nat (maxSteps (cfg ?next) - step ?next)"
        "step b = max (step ?next) (maxSteps (cfg ?next))"
        using iteration.IH(2) [of response e a' m] by blast
      moreover from e True st have "Run_loop ctx a lastResponse = Run_loop ctx ?next lastResponse"
        by (simp add: Run_loop_recoverable)
      ultimately show ?thesis using fr q count top by (simp add: addMessage_def)
    qed
  qed
qed

lemma Run_count:
  assumes "neverStops ctx a"
  shows "\<exists>last a'. Run ctx task a = ((last, Some (TerminatingErr ReasonStepLimit '''')), a')
     \<and> length (queried a') = length (queried a) + nat (maxSteps (cfg a))
     \<and> step a' = max 0 (maxSteps (cfg a))"
proof -
  let ?start = "a\<lparr>messages := [\<lparr>Role = RoleSystem, Content = systemPrompt (cfg a)\<rparr>,
    \<lparr>Role = RoleUser, Content = task\<rparr>], step := 0\<rparr>"
  have "sameSession a ?start" by (simp add: sameSession_def)
  from Run_loop_count [OF assms this, of "''''"] show ?thesis
    by (simp add: Run_start)
qed

text \<open>
  C4, as the code has it. \<open>New\<close> replaces a configured maximum of 0 by 25, so the claim
  holds of a positive maximum \<open>N\<close>; and a step may also end the session by an error that
  is not recoverable (a cancelled context, a failed query), so the session must stop
  for neither reason. Then \<open>Run\<close> on the agent that \<open>New\<close> builds queries the model exactly
  \<open>N\<close> times, leaves the step counter at \<open>N\<close> and returns a terminating signal with reason
  \<open>step_limit\<close>. A step that ends in a recoverable error is one of the \<open>N\<close>: the hypothesis
  allows any step to end so.
\<close>

theorem Run_stops_at_step_limit:
  assumes "0 < maxSteps c" and "neverStops ctx (New m e c)"
  shows "\<exists>last a'. Run ctx task (New m e c)
       = ((last, Some (TerminatingErr ReasonStepLimit '''')), a')
     \<and> length (queried a') = nat (maxSteps c) \<and> step a' = maxSteps c"
proof -
  from assms(1) have "maxSteps (cfg (New m e c)) = maxSteps c" by (simp add: New_cfg)
  with Run_count [OF assms(2), of task] assms(1) show ?thesis
    by (simp add: New_fields)
qed

lemma talk_continues:
  assumes "sameSession (New talkModel idleEnv c) b" and "parser c = None"
  shows "continues neverCancelled b"
proof -
  from assms have b: "model b = talkModel" "parser (cfg b) = Some ParseAction"
    by (simp_all add: sameSession_def New_fields New_cfg)
  have "neverCancelled (length (queried b)) = None" by (simp add: neverCancelled_def)
  moreover from b(1) have "model b (length (queried b)) (messages b) = Inr ''I am done.''"
    by (simp add: talkModel_def)
  ultimately have "Step neverCancelled b
      = (('''', Some (ProcessErr ProcessErrFormat noCommandMessage)),
         b\<lparr>queried := queried b @ [messages b]\<rparr>)"
    using b(2) no_fence_in_talk by (rule Step_parse_failure)
  then show ?thesis by (simp add: continues_def recoverMessage_def)
qed

lemma talk_neverStops: "parser c = None \<Longrightarrow> neverStops neverCancelled (New talkModel idleEnv c)"
  by (simp add: neverStops_def neverCancelled_def talk_continues)

theorem Run_stops_at_step_limit_witness:
  "\<exists>last a'. Run neverCancelled ''task'' (New talkModel idleEnv (Config_zero\<lparr>maxSteps := 3\<rparr>))
       = ((last, Some (TerminatingErr ReasonStepLimit '''')), a')
     \<and> length (queried a') = 3 \<and> step a' = 3"
proof -
  have "0 < maxSteps (Config_zero\<lparr>maxSteps := 3\<rparr>)" by simp
  moreover have "neverStops neverCancelled (New talkModel idleEnv (Config_zero\<lparr>maxSteps := 3\<rparr>))"
    by (rule talk_neverStops) (simp add: Config_zero_def)
  ultimately have "\<exists>last a'.
      Run neverCancelled ''task'' (New talkModel idleEnv (Config_zero\<lparr>maxSteps := 3\<rparr>))
        = ((last, Some (TerminatingErr ReasonStepLimit '''')), a')
      \<and> length (queried a') = nat (maxSteps (Config_zero\<lparr>maxSteps := 3\<rparr>))
      \<and> step a' = maxSteps (Config_zero\<lparr>maxSteps := 3\<rparr>)"
    by (rule Run_stops_at_step_limit)
  then show ?thesis by simp
qed

text \<open>The claim as stated fails for the configured maximum 0: the model of the example
  never triggers a terminating signal, and \<open>Run\<close> queries it 25 times.\<close>

theorem Run_zero_maxSteps_runs_25:
  "maxSteps Config_zero = 0
   \<and> length (queried (snd (Run neverCancelled ''task'' (New talkModel idleEnv Config_zero)))) = 25
   \<and> snd (fst (Run neverCancelled ''task'' (New talkModel idleEnv Config_zero)))
       = Some (TerminatingErr ReasonStepLimit '''')"
proof -
  have "neverStops neverCancelled (New talkModel idleEnv Config_zero)"
    by (rule talk_neverStops) (simp add: Config_zero_def)
  from Run_count [OF this, of "''task''"] show ?thesis
    by (auto simp: New_fields New_cfg Config_zero_def)
qed

section \<open>The parser and the fences of a response\<close>

lemma prefix_split: "prefix p s \<Longrightarrow> s = p @ drop (length p) s"
  by (auto simp: prefix_def)

lemma matchLazy_sound: "matchLazy s = Some (c, rest) \<Longrightarrow> s = c @ fenceClose @ rest"
proof (induction s arbitrary: c)
  case Nil
  then show ?case by simp
next
  case (Cons x xs)
  show ?case
  proof (cases "prefix fenceClose (x # xs)")
    case True
    with Cons.prems have "c = []" "rest = drop (length fenceClose) (x # xs)" by simp_all
    with prefix_split [OF True] show ?thesis by simp
  next
    case False
    with Cons.prems obtain c' where c': "matchLazy xs = Some (c', rest)" "c = x # c'"
      by auto
    from Cons.IH [OF c'(1)] c'(2) show ?thesis by simp
  qed
qed

lemma matchLazy_complete: "matchLazy (c @ fenceClose @ rest) \<noteq> None"
proof (induction c)
  case Nil
  then show ?case by (simp add: fenceClose_def)
next
  case (Cons x c)
  then show ?case by auto
qed

lemma matchSpaces_sound:
  "matchSpaces s = Some (c, rest) \<Longrightarrow>
     \<exists>ws. s = ws @ [CHR 0x0A] @ c @ fenceClose @ rest \<and> (\<forall>x \<in> set ws. isReSpace x)"
proof (induction s)
  case Nil
  then show ?case by simp
next
  case (Cons x xs)
  from Cons.prems have sp: "isReSpace x" by (auto split: if_splits)
  show ?case
  proof (cases "matchSpaces xs")
    case None
    with Cons.prems sp have "x = CHR 0x0A" "matchLazy xs = Some (c, rest)"
      by (auto split: if_splits)
    with matchLazy_sound [of xs c rest]
    have "x # xs = [] @ [CHR 0x0A] @ c @ fenceClose @ rest" by simp
    then show ?thesis by (intro exI [of _ "[]"]) simp
  next
    case (Some r)
    with Cons.prems sp have "matchSpaces xs = Some (c, rest)" by simp
    from Cons.IH [OF this] obtain ws where
      "xs = ws @ [CHR 0x0A] @ c @ fenceClose @ rest" "\<forall>x \<in> set ws. isReSpace x"
      by blast
    with sp show ?thesis by (intro exI [of _ "x # ws"]) simp
  qed
qed

lemma matchSpaces_complete:
  "\<forall>x \<in> set ws. isReSpace x \<Longrightarrow> matchSpaces (ws @ [CHR 0x0A] @ c @ fenceClose @ rest) \<noteq> None"
proof (induction ws)
  case Nil
  have "isReSpace (CHR 0x0A)" by (simp add: isReSpace_def)
  with matchLazy_complete [of c rest] show ?case
    by (auto split: option.splits)
next
  case (Cons x ws)
  then show ?case by (auto split: option.splits)
qed

lemma matchHere_sound: "matchHere t = Some (c, rest) \<Longrightarrow> isFence t c rest"
proof -
  assume m: "matchHere t = Some (c, rest)"
  then have p: "prefix fenceOpen t"
    and "matchSpaces (drop (length fenceOpen) t) = Some (c, rest)"
    by (auto simp: matchHere_def split: if_splits)
  from matchSpaces_sound [OF this(2)] obtain ws where
    "drop (length fenceOpen) t = ws @ [CHR 0x0A] @ c @ fenceClose @ rest"
    "\<forall>x \<in> set ws. isReSpace x"
    by blast
  with prefix_split [OF p] show ?thesis by (auto simp: isFence_def)
qed

lemma matchHere_complete: "isFence t c rest \<Longrightarrow> matchHere t \<noteq> None"
proof -
  assume "isFence t c rest"
  then obtain ws where t: "t = fenceOpen @ ws @ [CHR 0x0A] @ c @ fenceClose @ rest"
    and sp: "\<forall>x \<in> set ws. isReSpace x"
    by (auto simp: isFence_def)
  from t have "prefix fenceOpen t"
    and "drop (length fenceOpen) t = ws @ [CHR 0x0A] @ c @ fenceClose @ rest"
    by simp_all
  with matchSpaces_complete [OF sp, of c rest] show ?thesis
    by (simp add: matchHere_def)
qed

lemma findMatch_sound:
  "findMatch s = Some (c, rest) \<Longrightarrow> \<exists>pre t. s = pre @ t \<and> isFence t c rest"
proof (induction s)
  case Nil
  then show ?case by simp
next
  case (Cons x xs)
  show ?case
  proof (cases "matchHere (x # xs)")
    case None
    with Cons.prems have "findMatch xs = Some (c, rest)" by simp
    from Cons.IH [OF this] obtain pre t where "xs = pre @ t" "isFence t c rest" by blast
    then show ?thesis by (intro exI [of _ "x # pre"] exI [of _ t]) simp
  next
    case (Some r)
    with Cons.prems have "matchHere (x # xs) = Some (c, rest)" by simp
    then have "isFence (x # xs) c rest" by (rule matchHere_sound)
    then show ?thesis by (intro exI [of _ "[]"] exI [of _ "x # xs"]) simp
  qed
qed

lemma findMatch_complete: "isFence t c rest \<Longrightarrow> findMatch (pre @ t) \<noteq> None"
proof (induction pre)
  case Nil
  then have m: "matchHere t \<noteq> None" by (rule matchHere_complete)
  from Nil have "t \<noteq> []" by (auto simp: isFence_def fenceOpen_def)
  then obtain x xs where "t = x # xs" by (cases t) auto
  with m show ?case by (auto split: option.splits)
next
  case (Cons x pre)
  then show ?case by (auto split: option.splits)
qed

lemma findMatch_None_iff: "findMatch r = None \<longleftrightarrow> \<not> containsFence r"
proof
  assume none: "findMatch r = None"
  show "\<not> containsFence r"
  proof
    assume "containsFence r"
    then obtain pre t c rest where "r = pre @ t" "isFence t c rest"
      by (auto simp: containsFence_def)
    with findMatch_complete [of t c rest pre] none show False by simp
  qed
next
  assume no: "\<not> containsFence r"
  show "findMatch r = None"
  proof (rule ccontr)
    assume "findMatch r \<noteq> None"
    then obtain c rest where "findMatch r = Some (c, rest)" by auto
    from findMatch_sound [OF this] no show False by (auto simp: containsFence_def)
  qed
qed

lemma FindAll_Nil_iff: "FindAllStringSubmatch r = [] \<longleftrightarrow> \<not> containsFence r"
proof -
  have "FindAllStringSubmatch r = [] \<longleftrightarrow> findMatch r = None"
    by (subst FindAllStringSubmatch.simps) (auto split: option.splits)
  then show ?thesis by (simp add: findMatch_None_iff)
qed

lemma FindAll_single:
  assumes "FindAllStringSubmatch r = [c]"
  shows "\<exists>pre t post. r = pre @ t \<and> isFence t c post \<and> \<not> containsFence post"
proof -
  from assms obtain post where m: "findMatch r = Some (c, post)"
    and rest: "FindAllStringSubmatch post = []"
    by (subst (asm) FindAllStringSubmatch.simps) (auto split: option.splits)
  from findMatch_sound [OF m] obtain pre t where "r = pre @ t" "isFence t c post" by blast
  moreover from rest have "\<not> containsFence post" by (simp add: FindAll_Nil_iff)
  ultimately show ?thesis by blast
qed

lemma ParseAction_cases:
  "ParseAction r =
     (case FindAllStringSubmatch r of
        [] \<Rightarrow> Inl (ProcessErr ProcessErrFormat noCommandMessage)
      | [c] \<Rightarrow> if TrimSpace c = '''' then Inl (ProcessErr ProcessErrFormat emptyCommandMessage)
               else Inr \<lparr>Type = ActionTypeBash, Command = TrimSpace c\<rparr>
      | c # d # cs \<Rightarrow>
          Inl (ProcessErr ProcessErrFormat (manyCommandsMessage (length (c # d # cs)))))"
  by (simp add: ParseAction_def Let_def split: list.splits)

text \<open>
  C2. The fences of a response are the matches \<open>FindAllStringSubmatch\<close> finds, each given
  by its contents. \<open>ParseAction\<close> returns an action exactly when there is one fence whose
  trimmed contents are not empty, and the action is the bash action with those trimmed
  contents as its command. It returns an error exactly when there is no fence, more than
  one, or one whose trimmed contents are empty, and every error is a \<open>ProcessErr\<close> of type
  \<open>format\<close>: the guidance text, the text that reports the count, the text for an empty
  command. There is no fence exactly when the pattern matches nowhere in the response;
  and when there is one fence, the response is a text, a match of the pattern with the
  fence's contents as its group, and a text in which the pattern matches nowhere. The
  result is a function of the response alone.
\<close>

theorem ParseAction_one_fence:
  "(ParseAction r = Inr act \<longleftrightarrow>
      (\<exists>c. FindAllStringSubmatch r = [c] \<and> TrimSpace c \<noteq> ''''
           \<and> act = \<lparr>Type = ActionTypeBash, Command = TrimSpace c\<rparr>))
   \<and> ((\<exists>e. ParseAction r = Inl e) \<longleftrightarrow>
        FindAllStringSubmatch r = [] \<or> 1 < length (FindAllStringSubmatch r)
        \<or> (\<exists>c. FindAllStringSubmatch r = [c] \<and> TrimSpace c = ''''))
   \<and> (ParseAction r = Inl e \<longrightarrow>
        e = ProcessErr ProcessErrFormat
              (if FindAllStringSubmatch r = [] then noCommandMessage
               else if 1 < length (FindAllStringSubmatch r)
               then ''Found '' @ itoa (int (length (FindAllStringSubmatch r)))
                    @ '' commands, expected exactly one. Please provide a single command in ```bash``` block.''
               else emptyCommandMessage))
   \<and> (FindAllStringSubmatch r = [] \<longleftrightarrow> \<not> containsFence r)
   \<and> (FindAllStringSubmatch r = [c] \<longrightarrow>
        (\<exists>pre t post. r = pre @ t \<and> isFence t c post \<and> \<not> containsFence post))"
proof (intro conjI)
  show "ParseAction r = Inr act \<longleftrightarrow>
      (\<exists>c. FindAllStringSubmatch r = [c] \<and> TrimSpace c \<noteq> ''''
           \<and> act = \<lparr>Type = ActionTypeBash, Command = TrimSpace c\<rparr>)"
    by (auto simp: ParseAction_cases split: list.splits)
  show "(\<exists>e. ParseAction r = Inl e) \<longleftrightarrow>
        FindAllStringSubmatch r = [] \<or> 1 < length (FindAllStringSubmatch r)
        \<or> (\<exists>c. FindAllStringSubmatch r = [c] \<and> TrimSpace c = '''')"
    by (auto simp: ParseAction_cases split: list.splits)
  show "ParseAction r = Inl e \<longrightarrow>
        e = ProcessErr ProcessErrFormat
              (if FindAllStringSubmatch r = [] then noCommandMessage
               else if 1 < length (FindAllStringSubmatch r)
               then ''Found '' @ itoa (int (length (FindAllStringSubmatch r)))
                    @ '' commands, expected exactly one. Please provide a single command in ```bash``` block.''
               else emptyCommandMessage)"
    by (auto simp: ParseAction_cases manyCommandsMessage_def split: list.splits if_splits)
  show "FindAllStringSubmatch r = [] \<longleftrightarrow> \<not> containsFence r"
    by (rule FindAll_Nil_iff)
  show "FindAllStringSubmatch r = [c] \<longrightarrow>
        (\<exists>pre t post. r = pre @ t \<and> isFence t c post \<and> \<not> containsFence post)"
    using FindAll_single by blast
qed

lemma sleepResponse_fences: "FindAllStringSubmatch sleepResponse = [''sleep 60'']"
  by code_simp

lemma two_fences:
  "FindAllStringSubmatch (sleepResponse @ [CHR 0x0A] @ sleepResponse) = [''sleep 60'', ''sleep 60'']"
  by code_simp

lemma empty_fence:
  "FindAllStringSubmatch (''```bash'' @ [CHR 0x0A, CHR 0x0A] @ ''```'') = ['''']"
  by code_simp

lemma talk_fences: "FindAllStringSubmatch ''I am done.'' = []"
  by code_simp

lemma sleep_trimmed: "TrimSpace ''sleep 60'' = ''sleep 60''"
  by code_simp

theorem ParseAction_one_fence_witness:
  "ParseAction sleepResponse = Inr \<lparr>Type = ActionTypeBash, Command = ''sleep 60''\<rparr>
   \<and> ParseAction ''I am done.'' = Inl (ProcessErr ProcessErrFormat noCommandMessage)
   \<and> \<not> containsFence ''I am done.''
   \<and> ParseAction (sleepResponse @ [CHR 0x0A] @ sleepResponse)
       = Inl (ProcessErr ProcessErrFormat
           ''Found 2 commands, expected exactly one. Please provide a single command in ```bash``` block.'')
   \<and> ParseAction (''```bash'' @ [CHR 0x0A, CHR 0x0A] @ ''```'')
       = Inl (ProcessErr ProcessErrFormat emptyCommandMessage)
   \<and> (\<exists>pre t post. sleepResponse = pre @ t \<and> isFence t ''sleep 60'' post
         \<and> \<not> containsFence post)"
proof -
  let ?act = "\<lparr>Type = ActionTypeBash, Command = ''sleep 60''\<rparr>"
  let ?two = "sleepResponse @ [CHR 0x0A] @ sleepResponse"
  let ?empty = "''```bash'' @ [CHR 0x0A, CHR 0x0A] @ ''```''"
  from ParseAction_one_fence [where r = sleepResponse and act = ?act and c = "''sleep 60''"]
    sleepResponse_fences sleep_trimmed
  have one: "ParseAction sleepResponse = Inr ?act"
    and shape: "\<exists>pre t post. sleepResponse = pre @ t \<and> isFence t ''sleep 60'' post
      \<and> \<not> containsFence post"
    by simp_all
  from ParseAction_one_fence [where r = "''I am done.''"] talk_fences
  have none: "\<And>e. ParseAction ''I am done.'' = Inl e \<longrightarrow>
      e = ProcessErr ProcessErrFormat noCommandMessage"
    and isErr: "\<exists>e. ParseAction ''I am done.'' = Inl e"
    and nofence: "\<not> containsFence ''I am done.''"
    by simp_all
  from none isErr have zero: "ParseAction ''I am done.''
      = Inl (ProcessErr ProcessErrFormat noCommandMessage)"
    by blast
  have "itoa 2 = ''2''" by (simp add: itoa_def digits.simps)
  with ParseAction_one_fence [where r = ?two] two_fences
  have many: "\<And>e. ParseAction ?two = Inl e \<longrightarrow>
      e = ProcessErr ProcessErrFormat
        ''Found 2 commands, expected exactly one. Please provide a single command in ```bash``` block.''"
    and manyErr: "\<exists>e. ParseAction ?two = Inl e"
    by simp_all
  from many manyErr have two: "ParseAction ?two
      = Inl (ProcessErr ProcessErrFormat
        ''Found 2 commands, expected exactly one. Please provide a single command in ```bash``` block.'')"
    by blast
  from ParseAction_one_fence [where r = ?empty] empty_fence TrimSpace_Nil
  have blank: "\<And>e. ParseAction ?empty = Inl e \<longrightarrow>
      e = ProcessErr ProcessErrFormat emptyCommandMessage"
    and blankErr: "\<exists>e. ParseAction ?empty = Inl e"
    by simp_all
  from blank blankErr have empty: "ParseAction ?empty
      = Inl (ProcessErr ProcessErrFormat emptyCommandMessage)"
    by blast
  from one zero nofence two empty shape show ?thesis by simp
qed

section \<open>What a successful step returns\<close>

text \<open>In the root package \<open>handleOutput\<close> returns the empty string with a nil error, so a
  step that succeeds returns the empty string, and \<open>lastResponse\<close> in \<open>Run\<close> is empty at the
  step limit. (\<open>Step\<close> of package agent returns the model's response there.)\<close>

lemma handleOutput_success_empty:
  "handleOutput out a = ((response, None), a') \<Longrightarrow> response = ''''"
  by (auto simp: handleOutput_def nilDereference_def split: option.splits if_splits)

lemma executeInEnv_success_empty:
  "executeInEnv k action a = ((response, None), a') \<Longrightarrow> response = ''''"
  by (auto simp: executeInEnv_def Let_def split: prod.splits option.splits
      dest: handleOutput_success_empty)

lemma Step_success_empty: "Step ctx a = ((response, None), a') \<Longrightarrow> response = ''''"
  by (auto simp: Step_def Let_def nilDereference_def
      split: option.splits sum.splits prod.splits if_splits
      dest: handleOutput_success_empty executeInEnv_success_empty)

lemma joinLines_two: "joinLines [''a'', ''b''] = ''a'' @ [CHR 0x0A] @ ''b''"
  by (simp add: joinLines_def)

section \<open>Examples of the string functions\<close>

lemma TrimSpace_examples:
  "TrimSpace ([CHR 0x09] @ ''  ls -la '' @ [CHR 0x0D, CHR 0x0A]) = ''ls -la''"
  "TrimSpace ([CHR 0xC2, CHR 0xA0] @ ''a b'' @ [CHR 0xE3, CHR 0x80, CHR 0x80, CHR 0x0A]) = ''a b''"
  "TrimSpace (''a'' @ [CHR 0x80]) = ''a'' @ [CHR 0x80]"
  "TrimSpace [CHR 0x0A, CHR 0x0B, CHR 0x0C] = ''''"
  by code_simp+

lemma SplitN2_examples:
  "SplitN2 '''' = ['''']"
  "SplitN2 (''a'' @ [CHR 0x0A] @ ''b'' @ [CHR 0x0A] @ ''c'') = [''a'', ''b'' @ [CHR 0x0A] @ ''c'']"
  "SplitN2 (''a'' @ [CHR 0x0A]) = [''a'', '''']"
  by code_simp+

lemma itoa_examples: "itoa 0 = ''0''" "itoa 127 = ''127''" "itoa (- 1) = ''-1''"
  by code_simp+

text \<open>The greedy \<open>\s*\<close> gives back as little as it must: the group starts after the last
  line feed of the white space that follows the tag. A tag that is not followed by a line
  feed opens no fence, and the lazy group ends at the first closing fence.\<close>

lemma FindAllStringSubmatch_examples:
  "FindAllStringSubmatch (''```bash  '' @ [CHR 0x0A, CHR 0x0A] @ ''  ls'' @ [CHR 0x0A] @ ''```'')
     = [''  ls'']"
  "FindAllStringSubmatch (''```bash ls'' @ [CHR 0x0A] @ ''```'') = []"
  "FindAllStringSubmatch (''```bash'' @ [CHR 0x0A] @ ''```'') = []"
  "FindAllStringSubmatch
     (''```bash'' @ [CHR 0x0A] @ ''a'' @ [CHR 0x0A] @ ''```'' @ [CHR 0x0A] @ ''b'' @ [CHR 0x0A] @ ''```'')
     = [''a'']"
  by code_simp+

text \<open>\<open>isTaskComplete\<close> trims the stdout and its first line before the comparison,
  \<open>extractFinalOutput\<close> splits the stdout as it is.\<close>

lemma isTaskComplete_examples:
  "isTaskComplete \<lparr>Stdout = ''TASK_COMPLETE'', Stderr = '''', ExitCode = 0, TimedOut = False\<rparr>"
  "isTaskComplete
     \<lparr>Stdout = ''  TASK_COMPLETE  '' @ [CHR 0x0A] @ ''done'', Stderr = '''', ExitCode = 0,
      TimedOut = False\<rparr>"
  "\<not> isTaskComplete
     \<lparr>Stdout = ''TASK_COMPLETE: done'', Stderr = '''', ExitCode = 0, TimedOut = False\<rparr>"
  by code_simp+

end
